theory Spec2Isabelle
  imports Main "HOL-Library.Char_ord" "HOL-Library.List_Lexorder" "HOL-Library.Sublist"
    "HOL-Library.Multiset"
begin

section \<open>Python values\<close>

text \<open>
  A Python \<open>str\<close> is modelled as a \<open>string\<close>; one \<open>char\<close> stands for one code point
  below 256, so \<open>length\<close> counts what Python's \<open>len\<close> and slicing count. The only
  character of \<open>app.py\<close> beyond that range is the em dash of two fixed sentences of the
  reply; it is written as its three UTF-8 bytes (\<open>em_dash\<close>).

  The values that \<open>json.dumps\<close> writes are the type \<open>json\<close>: \<open>None\<close>, \<open>bool\<close>, \<open>int\<close>, \<open>str\<close>,
  \<open>list\<close>, \<open>dict\<close> with string keys (an association list in insertion order) and \<open>tuple\<close>.
  \<open>json.loads\<close> returns all of them but tuples. Floating-point numbers and dictionaries
  with other keys than strings are outside the model.
\<close>

datatype json =
    JNull
  | JBool bool
  | JInt int
  | JStr string
  | JArr "json list"
  | JObj "(string \<times> json) list"
  | JTuple "json list"

text \<open>The exceptions of the Python code, as values.\<close>

datatype error =
    AttributeError
  | TypeError
  | JSONDecodeError
  | IntegrityError
  | OperationalError
  | RecursionError
  | Unmodelled

text \<open>Truthiness of a value, as \<open>if v:\<close> and \<open>v or d\<close> test it.\<close>

fun truthy :: "json \<Rightarrow> bool" where
  "truthy JNull = False"
| "truthy (JBool b) = b"
| "truthy (JInt n) = (n \<noteq> 0)"
| "truthy (JStr s) = (s \<noteq> [])"
| "truthy (JArr xs) = (xs \<noteq> [])"
| "truthy (JObj kvs) = (kvs \<noteq> [])"
| "truthy (JTuple xs) = (xs \<noteq> [])"

definition dquote :: char where
  "dquote = CHR 0x22"

definition squote :: char where
  "squote = CHR 0x27"

definition backslash :: char where
  "backslash = CHR 0x5C"

definition em_dash :: string where
  "em_dash = [CHR 0xE2, CHR 0x80, CHR 0x94]"

text \<open>\<open>sep.join(xs)\<close>.\<close>

fun join :: "string \<Rightarrow> string list \<Rightarrow> string" where
  "join sep [] = []"
| "join sep [x] = x"
| "join sep (x # y # ys) = x @ sep @ join sep (y # ys)"

text \<open>\<open>str.isspace\<close> on one code point below 256, and \<open>str.strip()\<close>.\<close>

definition isspace :: "char \<Rightarrow> bool" where
  "isspace c = (c \<in> set [CHR 0x09, CHR 0x0A, CHR 0x0B, CHR 0x0C, CHR 0x0D,
     CHR 0x1C, CHR 0x1D, CHR 0x1E, CHR 0x1F, CHR 0x20, CHR 0x85, CHR 0xA0])"

definition strip :: "string \<Rightarrow> string" where
  "strip s = rev (dropWhile isspace (rev (dropWhile isspace s)))"

text \<open>\<open>s.replace(c, r)\<close> for a pattern \<open>c\<close> of one character.\<close>

definition replace :: "char \<Rightarrow> string \<Rightarrow> string \<Rightarrow> string" where
  "replace c r s = concat (map (\<lambda>x. if x = c then r else [x]) s)"

text \<open>
  \<open>html.escape(s)\<close> with its default \<open>quote=True\<close>: five replacements, the ampersand
  first.
\<close>

definition html_escape :: "string \<Rightarrow> string" where
  "html_escape s =
     replace squote ''&#x27;''
       (replace dquote ''&quot;''
         (replace (CHR ''>'') ''&gt;''
           (replace (CHR ''<'') ''&lt;''
             (replace (CHR ''&'') ''&amp;'' s))))"

text \<open>Decimal and hexadecimal digits; \<open>str(n)\<close> of an integer.\<close>

definition digit_char :: "nat \<Rightarrow> char" where
  "digit_char d = char_of (48 + d)"

definition hex_char :: "nat \<Rightarrow> char" where
  "hex_char d = (if d < 10 then char_of (48 + d) else char_of (87 + d))"

fun str_nat :: "nat \<Rightarrow> string" where
  "str_nat n = (if n < 10 then [digit_char n] else str_nat (n div 10) @ [digit_char (n mod 10)])"

declare str_nat.simps [simp del]

definition str_int :: "int \<Rightarrow> string" where
  "str_int i = (if i < 0 then CHR ''-'' # str_nat (nat (- i)) else str_nat (nat i))"

text \<open>
  \<open>repr\<close> of a string: single quotes unless the string holds a single quote and no
  double quote; the quote and the backslash escaped, tab, newline and carriage return by
  letter, every other code point that is not printable as \<open>\xNN\<close>.
\<close>

definition isprintable :: "char \<Rightarrow> bool" where
  "isprintable c = (let n = (of_char c :: nat) in (32 \<le> n \<and> n < 127) \<or> (161 \<le> n \<and> n \<noteq> 173))"

definition repr_char :: "char \<Rightarrow> char \<Rightarrow> string" where
  "repr_char q c =
     (if c = q \<or> c = backslash then [backslash, c]
      else if c = CHR 0x09 then [backslash, CHR ''t'']
      else if c = CHR 0x0A then [backslash, CHR ''n'']
      else if c = CHR 0x0D then [backslash, CHR ''r'']
      else if isprintable c then [c]
      else [backslash, CHR ''x'', hex_char (of_char c div 16), hex_char (of_char c mod 16)])"

definition repr_str :: "string \<Rightarrow> string" where
  "repr_str s =
     (let q = (if squote \<in> set s \<and> dquote \<notin> set s then dquote else squote)
      in q # concat (map (repr_char q) s) @ [q])"

fun py_repr :: "json \<Rightarrow> string"
  and py_repr_items :: "json list \<Rightarrow> string"
  and py_repr_pairs :: "(string \<times> json) list \<Rightarrow> string" where
  "py_repr JNull = ''None''"
| "py_repr (JBool b) = (if b then ''True'' else ''False'')"
| "py_repr (JInt n) = str_int n"
| "py_repr (JStr s) = repr_str s"
| "py_repr (JArr xs) = ''['' @ py_repr_items xs @ '']''"
| "py_repr (JObj kvs) = ''{'' @ py_repr_pairs kvs @ ''}''"
| "py_repr (JTuple xs) = ''('' @ py_repr_items xs @ (if length xs = 1 then '','' else []) @ '')''"
| "py_repr_items [] = []"
| "py_repr_items [x] = py_repr x"
| "py_repr_items (x # y # ys) = py_repr x @ '', '' @ py_repr_items (y # ys)"
| "py_repr_pairs [] = []"
| "py_repr_pairs [(k, v)] = repr_str k @ '': '' @ py_repr v"
| "py_repr_pairs ((k, v) # p # ps) = repr_str k @ '': '' @ py_repr v @ '', '' @ py_repr_pairs (p # ps)"

text \<open>What an f-string writes for a value: \<open>str(v)\<close>.\<close>

definition py_str :: "json \<Rightarrow> string" where
  "py_str v = (case v of JStr s \<Rightarrow> s | _ \<Rightarrow> py_repr v)"

section \<open>JSON text\<close>

text \<open>
  \<open>json.dumps\<close> with its defaults: separators \<open>", "\<close> and \<open>": "\<close>, \<open>ensure_ascii\<close>, so every
  character outside the printable ASCII range is written as an escape. A tuple is written
  as a list is.
\<close>

definition json_escape_char :: "char \<Rightarrow> string" where
  "json_escape_char c =
     (if c = dquote then [backslash, dquote]
      else if c = backslash then [backslash, backslash]
      else if c = CHR 0x0A then [backslash, CHR ''n'']
      else if c = CHR 0x0D then [backslash, CHR ''r'']
      else if c = CHR 0x09 then [backslash, CHR ''t'']
      else if c = CHR 0x08 then [backslash, CHR ''b'']
      else if c = CHR 0x0C then [backslash, CHR ''f'']
      else if 32 \<le> (of_char c :: nat) \<and> (of_char c :: nat) < 127 then [c]
      else [backslash, CHR ''u'', CHR ''0'', CHR ''0'',
            hex_char (of_char c div 16), hex_char (of_char c mod 16)])"

definition json_str :: "string \<Rightarrow> string" where
  "json_str s = dquote # concat (map json_escape_char s) @ [dquote]"

fun json_dumps :: "json \<Rightarrow> string"
  and dumps_items :: "json list \<Rightarrow> string"
  and dumps_pairs :: "(string \<times> json) list \<Rightarrow> string" where
  "json_dumps JNull = ''null''"
| "json_dumps (JBool b) = (if b then ''true'' else ''false'')"
| "json_dumps (JInt n) = str_int n"
| "json_dumps (JStr s) = json_str s"
| "json_dumps (JArr xs) = ''['' @ dumps_items xs @ '']''"
| "json_dumps (JObj kvs) = ''{'' @ dumps_pairs kvs @ ''}''"
| "json_dumps (JTuple xs) = ''['' @ dumps_items xs @ '']''"
| "dumps_items [] = []"
| "dumps_items [x] = json_dumps x"
| "dumps_items (x # y # ys) = json_dumps x @ '', '' @ dumps_items (y # ys)"
| "dumps_pairs [] = []"
| "dumps_pairs [(k, v)] = json_str k @ '': '' @ json_dumps v"
| "dumps_pairs ((k, v) # p # ps) = json_str k @ '': '' @ json_dumps v @ '', '' @ dumps_pairs (p # ps)"

text \<open>
  \<open>json.loads\<close>: the scanner of \<open>json.decoder\<close> and \<open>json.scanner\<close>. \<open>scanstring\<close> reads a
  string behind its opening quote (strict: no raw control character). A number with a
  fraction or an exponent, \<open>NaN\<close> and \<open>Infinity\<close> are floating-point values, outside the
  model (\<open>Unmodelled\<close>), as is an escape \<open>\uXXXX\<close> of a code point above 255. The recursion of
  \<open>scan_once\<close> through arrays and objects is bounded by fuel, one unit for a value and one
  for each item of an array or object; \<open>json_loads\<close> gives it twice the length of the text
  and one, which never runs out (\<open>json_loads_fuel\<close> below).
\<close>

definition json_ws :: "char \<Rightarrow> bool" where
  "json_ws c = (c \<in> set [CHR 0x20, CHR 0x09, CHR 0x0A, CHR 0x0D])"

definition skip_ws :: "string \<Rightarrow> string" where
  "skip_ws s = dropWhile json_ws s"

definition hex_val :: "char \<Rightarrow> nat option" where
  "hex_val c =
     (let n = (of_char c :: nat)
      in if 48 \<le> n \<and> n \<le> 57 then Some (n - 48)
         else if 97 \<le> n \<and> n \<le> 102 then Some (n - 87)
         else if 65 \<le> n \<and> n \<le> 70 then Some (n - 55)
         else None)"

definition hex4 :: "char \<Rightarrow> char \<Rightarrow> char \<Rightarrow> char \<Rightarrow> nat option" where
  "hex4 a b c d =
     (case (hex_val a, hex_val b, hex_val c, hex_val d) of
        (Some w, Some x, Some y, Some z) \<Rightarrow> Some (((w * 16 + x) * 16 + y) * 16 + z)
      | _ \<Rightarrow> None)"

definition unescape :: "char \<Rightarrow> char option" where
  "unescape e =
     (if e = dquote then Some dquote
      else if e = backslash then Some backslash
      else if e = CHR ''/'' then Some (CHR ''/'')
      else if e = CHR ''b'' then Some (CHR 0x08)
      else if e = CHR ''f'' then Some (CHR 0x0C)
      else if e = CHR ''n'' then Some (CHR 0x0A)
      else if e = CHR ''r'' then Some (CHR 0x0D)
      else if e = CHR ''t'' then Some (CHR 0x09)
      else None)"

definition cons_char :: "char \<Rightarrow> error + string \<times> string \<Rightarrow> error + string \<times> string" where
  "cons_char c r = (case r of Inl e \<Rightarrow> Inl e | Inr (t, rest) \<Rightarrow> Inr (c # t, rest))"

fun scanstring :: "string \<Rightarrow> error + string \<times> string" where
  "scanstring [] = Inl JSONDecodeError"
| "scanstring (c # cs) =
     (if c = dquote then Inr ([], cs)
      else if c = backslash then
        (case cs of
           [] \<Rightarrow> Inl JSONDecodeError
         | e # es \<Rightarrow>
             if e = CHR ''u'' then
               (case es of
                  h1 # h2 # h3 # h4 # r \<Rightarrow>
                    (case hex4 h1 h2 h3 h4 of
                       None \<Rightarrow> Inl JSONDecodeError
                     | Some n \<Rightarrow> if n < 256 then cons_char (char_of n) (scanstring r)
                                else Inl Unmodelled)
                | _ \<Rightarrow> Inl JSONDecodeError)
             else
               (case unescape e of
                  None \<Rightarrow> Inl JSONDecodeError
                | Some x \<Rightarrow> cons_char x (scanstring es)))
      else if (of_char c :: nat) < 32 then Inl JSONDecodeError
      else cons_char c (scanstring cs))"


definition is_digit :: "char \<Rightarrow> bool" where
  "is_digit c = (48 \<le> (of_char c :: nat) \<and> (of_char c :: nat) \<le> 57)"

fun nat_of_digits :: "nat \<Rightarrow> string \<Rightarrow> nat" where
  "nat_of_digits acc [] = acc"
| "nat_of_digits acc (c # cs) = nat_of_digits (10 * acc + (of_char c - 48)) cs"

definition starts_digit :: "string \<Rightarrow> bool" where
  "starts_digit s = (case s of [] \<Rightarrow> False | c # cs \<Rightarrow> is_digit c)"

definition has_frac :: "string \<Rightarrow> bool" where
  "has_frac s = (case s of [] \<Rightarrow> False | c # cs \<Rightarrow> c = CHR ''.'' \<and> starts_digit cs)"

definition has_exp :: "string \<Rightarrow> bool" where
  "has_exp s =
     (case s of
        [] \<Rightarrow> False
      | c # cs \<Rightarrow>
          (c = CHR ''e'' \<or> c = CHR ''E'')
          \<and> (case cs of
                [] \<Rightarrow> False
              | d # ds \<Rightarrow> if d = CHR ''+'' \<or> d = CHR ''-'' then starts_digit ds else is_digit d))"

definition skip_frac :: "string \<Rightarrow> string" where
  "skip_frac s = (if has_frac s then dropWhile is_digit (tl s) else s)"

definition match_int_part :: "string \<Rightarrow> (string \<times> string) option" where
  "match_int_part r =
     (case r of
        [] \<Rightarrow> None
      | c # cs \<Rightarrow>
          if \<not> is_digit c then None
          else if c = CHR ''0'' then Some ([c], cs)
          else Some (takeWhile is_digit r, dropWhile is_digit r))"

definition match_number :: "string \<Rightarrow> (error + json \<times> string) option" where
  "match_number s =
     (let neg = (case s of [] \<Rightarrow> False | c # cs \<Rightarrow> c = CHR ''-'')
      in case match_int_part (if neg then tl s else s) of
           None \<Rightarrow> None
         | Some (ds, rest) \<Rightarrow>
             if has_frac rest \<or> has_exp (skip_frac rest) then Some (Inl Unmodelled)
             else Some (Inr (JInt (if neg then - int (nat_of_digits 0 ds)
                                   else int (nat_of_digits 0 ds)), rest)))"

text \<open>\<open>d[k] = v\<close> on a dictionary in insertion order: a key already there keeps its place.\<close>

fun dict_set :: "(string \<times> json) list \<Rightarrow> string \<Rightarrow> json \<Rightarrow> (string \<times> json) list" where
  "dict_set [] k v = [(k, v)]"
| "dict_set ((k', v') # kvs) k v =
     (if k' = k then (k', v) # kvs else (k', v') # dict_set kvs k v)"

fun scan_once :: "nat \<Rightarrow> string \<Rightarrow> error + json \<times> string"
  and array_items :: "nat \<Rightarrow> string \<Rightarrow> json list \<Rightarrow> error + json \<times> string"
  and object_items :: "nat \<Rightarrow> string \<Rightarrow> (string \<times> json) list \<Rightarrow> error + json \<times> string" where
  "scan_once 0 s = Inl RecursionError"
| "scan_once (Suc n) s =
     (case s of
        [] \<Rightarrow> Inl JSONDecodeError
      | c # cs \<Rightarrow>
          if c = dquote then
            (case scanstring cs of Inl e \<Rightarrow> Inl e | Inr (t, r) \<Rightarrow> Inr (JStr t, r))
          else if c = CHR ''{'' then
            (case skip_ws cs of
               [] \<Rightarrow> Inl JSONDecodeError
             | d # ds \<Rightarrow>
                 if d = CHR ''}'' then Inr (JObj [], ds)
                 else if d = dquote then object_items n ds []
                 else Inl JSONDecodeError)
          else if c = CHR ''['' then
            (case skip_ws cs of
               [] \<Rightarrow> Inl JSONDecodeError
             | d # ds \<Rightarrow>
                 if d = CHR '']'' then Inr (JArr [], ds)
                 else array_items n (d # ds) [])
          else if prefix ''null'' s then Inr (JNull, drop 4 s)
          else if prefix ''true'' s then Inr (JBool True, drop 4 s)
          else if prefix ''false'' s then Inr (JBool False, drop 5 s)
          else
            (case match_number s of
               Some r \<Rightarrow> r
             | None \<Rightarrow>
                 if prefix ''NaN'' s \<or> prefix ''Infinity'' s \<or> prefix ''-Infinity'' s
                 then Inl Unmodelled
                 else Inl JSONDecodeError))"
| "array_items 0 s acc = Inl RecursionError"
| "array_items (Suc n) s acc =
     (case scan_once n s of
        Inl e \<Rightarrow> Inl e
      | Inr (v, r) \<Rightarrow>
          (case skip_ws r of
             [] \<Rightarrow> Inl JSONDecodeError
           | d # ds \<Rightarrow>
               if d = CHR '']'' then Inr (JArr (acc @ [v]), ds)
               else if d = CHR '','' then array_items n (skip_ws ds) (acc @ [v])
               else Inl JSONDecodeError))"
| "object_items 0 s acc = Inl RecursionError"
| "object_items (Suc n) s acc =
     (case scanstring s of
        Inl e \<Rightarrow> Inl e
      | Inr (k, r) \<Rightarrow>
          (case skip_ws r of
             [] \<Rightarrow> Inl JSONDecodeError
           | d # ds \<Rightarrow>
               if d \<noteq> CHR '':'' then Inl JSONDecodeError
               else
                 (case scan_once n (skip_ws ds) of
                    Inl e \<Rightarrow> Inl e
                  | Inr (v, r') \<Rightarrow>
                      (case skip_ws r' of
                         [] \<Rightarrow> Inl JSONDecodeError
                       | d' # ds' \<Rightarrow>
                           if d' = CHR ''}'' then Inr (JObj (dict_set acc k v), ds')
                           else if d' = CHR '','' then
                             (case skip_ws ds' of
                                [] \<Rightarrow> Inl JSONDecodeError
                              | q # qs \<Rightarrow>
                                  if q = dquote then object_items n qs (dict_set acc k v)
                                  else Inl JSONDecodeError)
                           else Inl JSONDecodeError))))"

definition json_loads :: "string \<Rightarrow> error + json" where
  "json_loads s =
     (case scan_once (2 * length s + 1) (skip_ws s) of
        Inl e \<Rightarrow> Inl e
      | Inr (v, r) \<Rightarrow> if skip_ws r = [] then Inr v else Inl JSONDecodeError)"

section \<open>Profiles\<close>

text \<open>
  The dictionary \<open>user\<close>. The keys \<open>name\<close>, \<open>email\<close> and \<open>phone\<close> hold a string or \<open>None\<close>.
  \<open>meta\<close> is \<open>None\<close> when the dictionary has no key \<open>meta\<close> (the code reads it with
  \<open>user.get("meta", {})\<close>) and any value otherwise; a profile as the data model describes
  it holds a mapping, \<open>JObj\<close>.
\<close>

record user =
  id_u :: string
  name :: "string option"
  email :: "string option"
  phone :: "string option"
  meta :: "json option"
  created_at :: string

text \<open>\<open>user.get("meta", {}).get(k, d)\<close>: only a dictionary has \<open>get\<close>.\<close>

definition meta_get :: "user \<Rightarrow> string \<Rightarrow> json \<Rightarrow> error + json" where
  "meta_get u k d =
     (case meta u of
        None \<Rightarrow> Inr d
      | Some (JObj kvs) \<Rightarrow> Inr (case map_of kvs k of None \<Rightarrow> d | Some v \<Rightarrow> v)
      | Some _ \<Rightarrow> Inl AttributeError)"

section \<open>Mock LBM\<close>

text \<open>The local variable \<open>sanitized\<close> of \<open>mock_lbm_response\<close>: the echo of the prompt.\<close>

definition sanitized :: "string \<Rightarrow> string" where
  "sanitized prompt = take 1000 (html_escape (strip prompt))"

definition greeting_line :: "string \<Rightarrow> string" where
  "greeting_line n = ''Hi '' @ n @ '', thanks for sharing that.''"

definition bio_line :: "json \<Rightarrow> string" where
  "bio_line short_profile =
     ''I remember you said: '' @ [dquote] @ py_str short_profile @ [dquote] @ '' '' @ em_dash
       @ '' I'' @ [squote] @ ''ll keep that in mind.''"

definition lead_in_line :: string where
  "lead_in_line = ''Here'' @ [squote] @ ''s a thoughtful reply to your message:''"

definition suggestion_line :: string where
  "suggestion_line =
     ''Suggestion: try breaking the task into smaller steps. Which step would you like help with first?''"

definition disclaimer_line :: string where
  "disclaimer_line =
     ''(This is a demo response from Assessli'' @ [squote] @ ''s prototype LBM '' @ em_dash
       @ '' not medical or legal advice.)''"

text \<open>\<open>name = user_profile.get("name") or "Friend"\<close>.\<close>

definition name_or_friend :: "user \<Rightarrow> string" where
  "name_or_friend user_profile =
     (case name user_profile of
        None \<Rightarrow> ''Friend''
      | Some n \<Rightarrow> if n = [] then ''Friend'' else n)"

definition mock_lbm_response :: "user \<Rightarrow> string \<Rightarrow> error + string" where
  "mock_lbm_response user_profile prompt =
     (case meta_get user_profile ''bio'' (JStr []) of
        Inl e \<Rightarrow> Inl e
      | Inr short_profile \<Rightarrow>
          Inr (join [CHR 0x0A, CHR 0x0A]
            ([greeting_line (name_or_friend user_profile)]
             @ (if truthy short_profile then [bio_line short_profile] else [])
             @ [lead_in_line]
             @ [''> '' @ sanitized prompt]
             @ [suggestion_line]
             @ [disclaimer_line])))"

section \<open>Record store\<close>

text \<open>
  A value in a column of the SQLite file. The columns \<open>meta\<close> and \<open>metadata\<close> are declared
  \<open>JSON\<close>, which gives them NUMERIC affinity: the text of a bare number is stored as that
  number, every other text as it is (\<open>json_column\<close>). \<open>sqlite3\<close> hands a stored number back
  as a Python number, which is false when zero and which \<open>json.loads\<close> refuses.
\<close>

datatype sqlval = SqlNull | SqlText string | SqlNumber int

definition json_column :: "json \<Rightarrow> sqlval" where
  "json_column v = (case v of JInt n \<Rightarrow> SqlNumber n | _ \<Rightarrow> SqlText (json_dumps v))"

text \<open>Rows of the tables \<open>users\<close> and \<open>conversations\<close>, columns in the order of \<open>init_db\<close>.\<close>

record user_row =
  row_id :: string
  row_name :: "string option"
  row_email :: "string option"
  row_phone :: "string option"
  row_meta :: sqlval
  row_created_at :: string

record conv_row =
  crow_id :: string
  crow_user_id :: string
  crow_role :: string
  crow_message :: string
  crow_metadata :: sqlval
  crow_ts :: string

text \<open>The dictionary \<open>conv\<close> that \<open>save_message\<close> takes.\<close>

record conv =
  id_c :: string
  user_id :: string
  role :: string
  message :: string
  metadata :: json
  ts :: string

text \<open>
  The connection: the two tables, rows in insertion order, and whether the medium takes a
  write (a full, locked or read-only file raises \<open>sqlite3.OperationalError\<close>).
\<close>

record conn =
  users :: "user_row list"
  conversations :: "conv_row list"
  writable :: bool

text \<open>\<open>init_db\<close>: \<open>CREATE TABLE IF NOT EXISTS\<close> on a new file or on an existing one.\<close>

definition init_db :: "conn option \<Rightarrow> conn" where
  "init_db db =
     (case db of
        None \<Rightarrow> \<lparr>users = [], conversations = [], writable = True\<rparr>
      | Some c \<Rightarrow> c)"

text \<open>\<open>INSERT OR REPLACE\<close>: a row with the same primary key is deleted first.\<close>

definition save_user :: "conn \<Rightarrow> user \<Rightarrow> error + conn" where
  "save_user c u =
     (if \<not> writable c then Inl OperationalError
      else Inr (c\<lparr>users :=
             filter (\<lambda>r. row_id r \<noteq> id_u u) (users c)
             @ [\<lparr>row_id = id_u u, row_name = name u, row_email = email u, row_phone = phone u,
                 row_meta = json_column (case meta u of None \<Rightarrow> JObj [] | Some m \<Rightarrow> m),
                 row_created_at = created_at u\<rparr>]\<rparr>))"

text \<open>
  The row that \<open>save_message\<close> inserts. \<open>INSERT\<close>: a second row with the same primary key
  raises \<open>sqlite3.IntegrityError\<close>.
\<close>

definition conv_to_row :: "conv \<Rightarrow> conv_row" where
  "conv_to_row m =
     \<lparr>crow_id = id_c m, crow_user_id = user_id m, crow_role = role m,
      crow_message = message m, crow_metadata = json_column (metadata m), crow_ts = ts m\<rparr>"

definition save_message :: "conn \<Rightarrow> conv \<Rightarrow> error + conn" where
  "save_message c m =
     (if \<not> writable c then Inl OperationalError
      else if id_c m \<in> set (map crow_id (conversations c)) then Inl IntegrityError
      else Inr (c\<lparr>conversations := conversations c @ [conv_to_row m]\<rparr>))"

text \<open>\<open>json.loads(row[4]) if row[4] else {}\<close>.\<close>

definition load_meta :: "sqlval \<Rightarrow> error + json" where
  "load_meta x =
     (case x of
        SqlNull \<Rightarrow> Inr (JObj [])
      | SqlText t \<Rightarrow> if t = [] then Inr (JObj []) else json_loads t
      | SqlNumber n \<Rightarrow> if n = 0 then Inr (JObj []) else Inl TypeError)"

text \<open>The dictionary that \<open>fetch_user\<close> and \<open>list_users\<close> build from a row.\<close>

definition row_to_user :: "user_row \<Rightarrow> error + user" where
  "row_to_user r =
     (case load_meta (row_meta r) of
        Inl e \<Rightarrow> Inl e
      | Inr m \<Rightarrow>
          Inr \<lparr>id_u = row_id r, name = row_name r, email = row_email r, phone = row_phone r,
               meta = Some m, created_at = row_created_at r\<rparr>)"


text \<open>
  \<open>ORDER BY created_at DESC\<close>: text compared byte by byte. SQL leaves the order of rows
  with equal \<open>created_at\<close> open; SQLite's sort is stable, so they stay in the order of the
  table, as they do here.
\<close>

definition order_by_created_at_desc :: "user_row list \<Rightarrow> user_row list" where
  "order_by_created_at_desc rows = rev (sort_key row_created_at (rev rows))"

text \<open>A list comprehension over calls that may raise: the first exception ends it.\<close>

fun collect :: "(error + 'a) list \<Rightarrow> error + 'a list" where
  "collect [] = Inr []"
| "collect (x # xs) =
     (case x of
        Inl e \<Rightarrow> Inl e
      | Inr v \<Rightarrow> (case collect xs of Inl e \<Rightarrow> Inl e | Inr vs \<Rightarrow> Inr (v # vs)))"

definition list_users :: "conn \<Rightarrow> error + user list" where
  "list_users c = collect (map row_to_user (order_by_created_at_desc (users c)))"

section \<open>The pages\<close>

text \<open>
  What the Streamlit widgets and the outside world give one run of a page. An HTTP call
  either raises (no connection, timeout) or returns a status code and a body; the body is
  given as what \<open>.json()\<close> makes of it, \<open>None\<close> when \<open>.json()\<close> raises.
\<close>

datatype http_result = RequestFailed | Response int "json option"


record chat_form =
  openai_key :: string
  prompt_in :: string
  remember_pref :: bool
  submit :: bool
  browser :: string

text \<open>
  One run of \<open>companion_chat_ui\<close> calls \<open>uuid.uuid4()\<close> and \<open>datetime.utcnow()\<close> twice each,
  \<open>requests.get\<close> on the IP service at most once and \<open>requests.post\<close> on the language model
  at most once.
\<close>

record world =
  uuid_1 :: string
  uuid_2 :: string
  utcnow_1 :: string
  utcnow_2 :: string
  ipify :: http_result
  openai :: http_result


text \<open>
  \<open>try_get_public_ip\<close>: \<open>resp.json().get("ip")\<close> on status 200, \<open>None\<close> on any other status
  and on every exception (a body that is no JSON, or JSON that is no dictionary).
\<close>

definition try_get_public_ip :: "http_result \<Rightarrow> json" where
  "try_get_public_ip r =
     (case r of
        RequestFailed \<Rightarrow> JNull
      | Response status body \<Rightarrow>
          if status = 200 then
            (case body of
               Some (JObj kvs) \<Rightarrow> (case map_of kvs ''ip'' of None \<Rightarrow> JNull | Some v \<Rightarrow> v)
             | _ \<Rightarrow> JNull)
          else JNull)"

definition detect_tech_info :: "http_result \<Rightarrow> string \<Rightarrow> json" where
  "detect_tech_info r ua = JObj [(''ip'', try_get_public_ip r), (''browser'', JStr ua)]"

text \<open>
  \<open>tech = detect_tech_info() if user.get("meta", {}).get("allow_tech_info", True) else {}\<close>.
\<close>

definition tech_for :: "user \<Rightarrow> chat_form \<Rightarrow> world \<Rightarrow> error + json" where
  "tech_for u f w =
     (case meta_get u ''allow_tech_info'' (JBool True) of
        Inl e \<Rightarrow> Inl e
      | Inr flag \<Rightarrow> Inr (if truthy flag then detect_tech_info (ipify w) (browser f) else JObj []))"

definition user_conv :: "user \<Rightarrow> chat_form \<Rightarrow> world \<Rightarrow> json \<Rightarrow> conv" where
  "user_conv u f w tech =
     \<lparr>id_c = uuid_1 w, user_id = id_u u, role = ''user'', message = prompt_in f,
      metadata = JObj [(''tech'', tech)], ts = utcnow_1 w\<rparr>"

text \<open>
  \<open>resp["choices"][0]["message"]["content"].strip()\<close>: \<open>None\<close> when a subscript or \<open>strip\<close>
  raises. \<open>first_item\<close> is the subscript \<open>[0]\<close> on a list or a tuple; on a string it gives a
  string, on which the next subscript raises.
\<close>

definition first_item :: "json \<Rightarrow> json option" where
  "first_item v =
     (case v of
        JArr (x # rest) \<Rightarrow> Some x
      | JTuple (x # rest) \<Rightarrow> Some x
      | _ \<Rightarrow> None)"

definition extract_content :: "json \<Rightarrow> string option" where
  "extract_content resp =
     (case resp of
        JObj kvs \<Rightarrow>
          (case map_of kvs ''choices'' of
             Some choices \<Rightarrow>
               (case first_item choices of
                  Some (JObj ckvs) \<Rightarrow>
                    (case map_of ckvs ''message'' of
                       Some (JObj mkvs) \<Rightarrow>
                         (case map_of mkvs ''content'' of
                            Some (JStr s) \<Rightarrow> Some (strip s)
                          | _ \<Rightarrow> None)
                     | _ \<Rightarrow> None)
                | _ \<Rightarrow> None)
           | None \<Rightarrow> None)
      | _ \<Rightarrow> None)"

text \<open>The body of the \<open>try\<close> up to the assignment from the response: the text, if it got one.\<close>

definition openai_text :: "http_result \<Rightarrow> string option" where
  "openai_text r =
     (case r of
        RequestFailed \<Rightarrow> None
      | Response status body \<Rightarrow>
          if status = 200 then (case body of None \<Rightarrow> None | Some resp \<Rightarrow> extract_content resp)
          else None)"

definition assistant_text_for :: "user \<Rightarrow> chat_form \<Rightarrow> world \<Rightarrow> error + string" where
  "assistant_text_for u f w =
     (if openai_key f \<noteq> [] then
        (case openai_text (openai w) of
           Some t \<Rightarrow> Inr t
         | None \<Rightarrow> mock_lbm_response u (prompt_in f))
      else mock_lbm_response u (prompt_in f))"

definition assistant_conv :: "user \<Rightarrow> chat_form \<Rightarrow> world \<Rightarrow> string \<Rightarrow> conv" where
  "assistant_conv u f w assistant_text =
     \<lparr>id_c = uuid_2 w, user_id = id_u u, role = ''assistant'', message = assistant_text,
      metadata = JObj [(''generated_by'',
                        JStr (if openai_key f = [] then ''mock_lbm'' else ''openai_proxy''))],
      ts = utcnow_2 w\<rparr>"

text \<open>
  \<open>companion_chat_ui\<close>: how the run ends, with the text it shows, if any, or with an
  exception that the code does not catch, and the store as the run leaves it. A call of
  \<open>save_message\<close> that raises has written nothing; what was committed before it stays.
\<close>

definition companion_chat_ui ::
  "conn \<Rightarrow> user \<Rightarrow> chat_form \<Rightarrow> world \<Rightarrow> (error + string option) \<times> conn" where
  "companion_chat_ui c u f w =
     (if submit f \<and> prompt_in f \<noteq> [] then
        (case tech_for u f w of
           Inl e \<Rightarrow> (Inl e, c)
         | Inr tech \<Rightarrow>
             (case (if remember_pref f then save_message c (user_conv u f w tech) else Inr c) of
                Inl e \<Rightarrow> (Inl e, c)
              | Inr c1 \<Rightarrow>
                  (case assistant_text_for u f w of
                     Inl e \<Rightarrow> (Inl e, c1)
                   | Inr assistant_text \<Rightarrow>
                       (case save_message c1 (assistant_conv u f w assistant_text) of
                          Inl e \<Rightarrow> (Inl e, c1)
                        | Inr c2 \<Rightarrow> (Inr (Some assistant_text), c2)))))
      else (Inr None, c))"

section \<open>Properties of the echo\<close>

text \<open>
  The escaped forms \<open>html.escape\<close> writes, and the reading of "no literal markup
  character" used below: the text holds no \<open><\<close> and no \<open>>\<close>, and an escaped form starts at
  every \<open>&\<close> in it.
\<close>

definition entities :: "string list" where
  "entities = [''&amp;'', ''&lt;'', ''&gt;'', ''&quot;'', ''&#x27;'']"

definition starts_entity :: "string \<Rightarrow> bool" where
  "starts_entity s = list_ex (\<lambda>e. prefix e s) entities"

definition starts_cut_entity :: "string \<Rightarrow> bool" where
  "starts_cut_entity s = list_ex (\<lambda>e. prefix s e) entities"

fun no_literal_markup :: "string \<Rightarrow> bool" where
  "no_literal_markup [] = True"
| "no_literal_markup (c # cs) =
     (c \<noteq> CHR ''<'' \<and> c \<noteq> CHR ''>'' \<and> (if c = CHR ''&'' then starts_entity (c # cs) else True)
      \<and> no_literal_markup cs)"

text \<open>The same, where the text may end inside an escaped form.\<close>

fun no_literal_markup_cut :: "string \<Rightarrow> bool" where
  "no_literal_markup_cut [] = True"
| "no_literal_markup_cut (c # cs) =
     (c \<noteq> CHR ''<'' \<and> c \<noteq> CHR ''>''
      \<and> (if c = CHR ''&'' then starts_entity (c # cs) \<or> starts_cut_entity (c # cs) else True)
      \<and> no_literal_markup_cut cs)"

text \<open>The reply around the echo.\<close>

definition reply_head :: "string \<Rightarrow> json \<Rightarrow> string" where
  "reply_head n short_profile =
     greeting_line n @ [CHR 0x0A, CHR 0x0A]
     @ (if truthy short_profile then bio_line short_profile @ [CHR 0x0A, CHR 0x0A] else [])
     @ lead_in_line @ [CHR 0x0A, CHR 0x0A]"

definition reply_tail :: string where
  "reply_tail = [CHR 0x0A, CHR 0x0A] @ suggestion_line @ [CHR 0x0A, CHR 0x0A] @ disclaimer_line"

text \<open>
  A profile as the data model describes it: \<open>meta\<close> is a mapping (or the key is absent,
  which the code reads as the empty mapping). \<open>bio_of\<close> is what \<open>meta.get("bio", "")\<close> gives
  for such a profile.
\<close>

definition mapping_meta :: "user \<Rightarrow> bool" where
  "mapping_meta u = (case meta u of None \<Rightarrow> True | Some (JObj kvs) \<Rightarrow> True | Some _ \<Rightarrow> False)"

definition meta_items :: "user \<Rightarrow> (string \<times> json) list" where
  "meta_items u = (case meta u of Some (JObj kvs) \<Rightarrow> kvs | _ \<Rightarrow> [])"

definition bio_of :: "user \<Rightarrow> json" where
  "bio_of u = (case map_of (meta_items u) ''bio'' of None \<Rightarrow> JStr [] | Some v \<Rightarrow> v)"

text \<open>One character of the input, as \<open>html.escape\<close> writes it.\<close>

definition escape_char :: "char \<Rightarrow> string" where
  "escape_char c =
     (if c = CHR ''&'' then ''&amp;''
      else if c = CHR ''<'' then ''&lt;''
      else if c = CHR ''>'' then ''&gt;''
      else if c = dquote then ''&quot;''
      else if c = squote then ''&#x27;''
      else [c])"

text \<open>A profile used as a concrete instance.\<close>

definition ava :: user where
  "ava = \<lparr>id_u = ''u-1'', name = Some ''Ava'', email = Some ''a@x.com'', phone = None,
     meta = Some (JObj [(''bio'', JStr ''loves hiking'')]), created_at = ''2024-01-01T00:00:00''\<rparr>"


text \<open>
  The limits of the interpreter are not part of the model: \<open>json.dumps\<close> and \<open>json.loads\<close>
  raise \<open>RecursionError\<close> on a value nested deeper than the recursion limit leaves room for
  (1000 frames by default, some of them in use when \<open>app.py\<close> runs), and \<open>ValueError\<close> on
  an integer of more than 4300 digits (the default of \<open>sys.set_int_max_str_digits\<close>), where
  \<open>json_dumps\<close> and \<open>json_loads\<close> return. What is stated below about a value that is written
  and read back is therefore stated of values within these limits only: lists, tuples and
  dictionaries nested at most 100 deep (\<open>nesting\<close>), and every integer of at most 4300
  digits (\<open>ints_ok\<close>).
\<close>

fun nesting :: "json \<Rightarrow> nat"
  and nesting_items :: "json list \<Rightarrow> nat"
  and nesting_pairs :: "(string \<times> json) list \<Rightarrow> nat" where
  "nesting JNull = 0"
| "nesting (JBool b) = 0"
| "nesting (JInt n) = 0"
| "nesting (JStr s) = 0"
| "nesting (JArr xs) = Suc (nesting_items xs)"
| "nesting (JObj kvs) = Suc (nesting_pairs kvs)"
| "nesting (JTuple xs) = Suc (nesting_items xs)"
| "nesting_items [] = 0"
| "nesting_items (x # xs) = max (nesting x) (nesting_items xs)"
| "nesting_pairs [] = 0"
| "nesting_pairs ((k, v) # ps) = max (nesting v) (nesting_pairs ps)"

fun ints_ok :: "json \<Rightarrow> bool"
  and ints_ok_items :: "json list \<Rightarrow> bool"
  and ints_ok_pairs :: "(string \<times> json) list \<Rightarrow> bool" where
  "ints_ok JNull = True"
| "ints_ok (JBool b) = True"
| "ints_ok (JInt n) = (length (str_nat (nat \<bar>n\<bar>)) \<le> 4300)"
| "ints_ok (JStr s) = True"
| "ints_ok (JArr xs) = ints_ok_items xs"
| "ints_ok (JObj kvs) = ints_ok_pairs kvs"
| "ints_ok (JTuple xs) = ints_ok_items xs"
| "ints_ok_items [] = True"
| "ints_ok_items (x # xs) = (ints_ok x \<and> ints_ok_items xs)"
| "ints_ok_pairs [] = True"
| "ints_ok_pairs ((k, v) # ps) = (ints_ok v \<and> ints_ok_pairs ps)"






text \<open>More profiles and stores used as concrete instances.\<close>

definition bo :: user where
  "bo = \<lparr>id_u = ''u-2'', name = Some ''Bo'', email = Some ''b@x.com'', phone = Some ''555'',
     meta = Some (JObj []), created_at = ''2024-03-01T00:00:00''\<rparr>"

definition cy :: user where
  "cy = \<lparr>id_u = ''u-3'', name = None, email = None, phone = None,
     meta = Some (JObj [(''allow_tech_info'', JBool False)]),
     created_at = ''2024-02-01T00:00:00''\<rparr>"

text \<open>
  A profile whose flag \<open>allow_tech_info\<close> is \<open>None\<close>, one whose \<open>meta\<close> is \<open>None\<close>, and one whose
  \<open>meta\<close> holds a tuple.
\<close>

definition dee :: user where
  "dee = \<lparr>id_u = ''u-4'', name = Some ''Dee'', email = Some ''d@x.com'', phone = None,
     meta = Some (JObj [(''allow_tech_info'', JNull)]), created_at = ''2024-04-01T00:00:00''\<rparr>"



definition three_saved :: "error + conn" where
  "three_saved =
     (case save_user (init_db None) ava of
        Inl e \<Rightarrow> Inl e
      | Inr c1 \<Rightarrow> (case save_user c1 bo of Inl e \<Rightarrow> Inl e | Inr c2 \<Rightarrow> save_user c2 cy))"

definition three_db :: conn where
  "three_db =
     \<lparr>users =
        [\<lparr>row_id = ''u-1'', row_name = Some ''Ava'', row_email = Some ''a@x.com'',
          row_phone = None,
          row_meta = SqlText (''{'' @ [dquote] @ ''bio'' @ [dquote] @ '': '' @ [dquote]
                              @ ''loves hiking'' @ [dquote] @ ''}''),
          row_created_at = ''2024-01-01T00:00:00''\<rparr>,
         \<lparr>row_id = ''u-2'', row_name = Some ''Bo'', row_email = Some ''b@x.com'',
          row_phone = Some ''555'', row_meta = SqlText ''{}'',
          row_created_at = ''2024-03-01T00:00:00''\<rparr>,
         \<lparr>row_id = ''u-3'', row_name = None, row_email = None, row_phone = None,
          row_meta = SqlText (''{'' @ [dquote] @ ''allow_tech_info'' @ [dquote] @ '': false}''),
          row_created_at = ''2024-02-01T00:00:00''\<rparr>],
      conversations = [], writable = True\<rparr>"




text \<open>
  What a run of \<open>companion_chat_ui\<close> shows, the rows it leaves in \<open>conversations\<close>, the
  failures of the call to the language model, and the flag \<open>allow_tech_info\<close> of a profile.
\<close>

definition shown :: "(error + string option) \<times> conn \<Rightarrow> error + string option" where
  "shown r = fst r"


definition flag_of :: "user \<Rightarrow> json option" where
  "flag_of u = map_of (meta_items u) ''allow_tech_info''"

text \<open>A chat form, a world and a store that refuses writes, as concrete instances.\<close>

definition hello_form :: chat_form where
  "hello_form = \<lparr>openai_key = [], prompt_in = ''hello'', remember_pref = True, submit = True,
     browser = ''Mozilla/5.0''\<rparr>"

definition offline_world :: world where
  "offline_world = \<lparr>uuid_1 = ''m-1'', uuid_2 = ''m-2'', utcnow_1 = ''2024-05-01T10:00:00'',
     utcnow_2 = ''2024-05-01T10:00:01'',
     ipify = Response 200 (Some (JObj [(''ip'', JStr ''203.0.113.7'')])),
     openai = RequestFailed\<rparr>"


definition rows_after :: "(error + string option) \<times> conn \<Rightarrow> conv_row list" where
  "rows_after r = conversations (snd r)"

definition full_db :: conn where
  "full_db = \<lparr>users = [], conversations = [], writable = False\<rparr>"

definition keyed_form :: chat_form where
  "keyed_form = hello_form\<lparr>openai_key := ''sk-test''\<rparr>"

section \<open>The echo of the prompt\<close>

lemma replace_append: "replace c r (xs @ ys) = replace c r xs @ replace c r ys"
  by (simp add: replace_def)

lemma replace_Nil: "replace c r [] = []"
  by (simp add: replace_def)

lemma replace_Cons: "replace c r (x # xs) = (if x = c then r else [x]) @ replace c r xs"
  by (simp add: replace_def)

lemma html_escape_Nil: "html_escape [] = []"
  by (simp add: html_escape_def replace_Nil)

text \<open>The five replacements in sequence escape each character on its own.\<close>

lemma html_escape_Cons: "html_escape (c # s) = escape_char c @ html_escape s"
  by (simp add: html_escape_def escape_char_def replace_Cons replace_Nil replace_append
      dquote_def squote_def)

lemma html_escape_append: "html_escape (xs @ ys) = html_escape xs @ html_escape ys"
  by (simp add: html_escape_def replace_append)

lemma length_escape_char: "1 \<le> length (escape_char c)"
  by (simp add: escape_char_def)

lemma length_html_escape: "length s \<le> length (html_escape s)"
proof (induction s)
  case Nil
  show ?case by simp
next
  case (Cons c s)
  have "Suc (length s) \<le> length (escape_char c) + length (html_escape s)"
    using Cons length_escape_char [of c] by linarith
  then show ?case by (simp add: html_escape_Cons)
qed

lemma no_literal_markup_escape_char:
  "no_literal_markup (escape_char c @ r) = no_literal_markup r"
  by (simp add: escape_char_def starts_entity_def entities_def dquote_def squote_def)

lemma no_literal_markup_html_escape: "no_literal_markup (html_escape s)"
  by (induction s) (simp_all add: html_escape_Nil html_escape_Cons no_literal_markup_escape_char)

lemma cut_escape_char:
  "no_literal_markup_cut (take n (escape_char c @ r)) =
     (if n \<le> length (escape_char c) then True
      else no_literal_markup_cut (take (n - length (escape_char c)) r))"
  by (simp add: escape_char_def starts_entity_def starts_cut_entity_def entities_def
      dquote_def squote_def take_Cons')

lemma no_literal_markup_cut_take: "no_literal_markup_cut (take n (html_escape s))"
  by (induction s arbitrary: n)
    (simp_all add: html_escape_Nil html_escape_Cons cut_escape_char del: take_append)

lemma no_literal_markup_cut_set:
  "no_literal_markup_cut s \<Longrightarrow> CHR ''<'' \<notin> set s \<and> CHR ''>'' \<notin> set s"
  by (induction s) auto

lemma strip_id:
  assumes "s \<noteq> []" and "\<not> isspace (hd s)" and "\<not> isspace (last s)"
  shows "strip s = s"
proof -
  from assms have a: "dropWhile isspace s = s"
    by (cases s) simp_all
  from assms have b: "dropWhile isspace (rev s) = rev s"
    by (cases "rev s") (simp_all add: last_rev hd_rev [symmetric])
  show ?thesis by (simp add: strip_def a b)
qed

lemma html_escape_plain: "html_escape (replicate n (CHR ''a'')) = replicate n (CHR ''a'')"
  by (induction n)
    (simp_all add: html_escape_Nil html_escape_Cons escape_char_def dquote_def squote_def)

lemma no_literal_markup_plain:
  "no_literal_markup (replicate n (CHR ''a'') @ t) = no_literal_markup t"
  by (induction n) simp_all

lemma strip_long_prompt: "strip (replicate 1001 (CHR ''a'')) = replicate 1001 (CHR ''a'')"
  by (rule strip_id) (simp_all add: isspace_def)

lemma sanitized_long_prompt: "sanitized (replicate 1001 (CHR ''a'')) = replicate 1000 (CHR ''a'')"
  by (simp add: sanitized_def strip_long_prompt html_escape_plain)

lemma strip_cut_prompt:
  "strip (replicate 999 (CHR ''a'') @ ''&'') = replicate 999 (CHR ''a'') @ ''&''"
  by (rule strip_id) (simp_all add: isspace_def hd_append)

lemma sanitized_cut_prompt:
  "sanitized (replicate 999 (CHR ''a'') @ ''&'') = replicate 999 (CHR ''a'') @ ''&''"
  by (simp add: sanitized_def strip_cut_prompt html_escape_append html_escape_plain
      html_escape_Cons html_escape_Nil escape_char_def)

text \<open>The reply is the head, the echo behind \<open>> \<close>, and the fixed tail.\<close>

lemma meta_get_mapping:
  "mapping_meta u \<Longrightarrow>
     meta_get u k d = Inr (case map_of (meta_items u) k of None \<Rightarrow> d | Some v \<Rightarrow> v)"
  by (auto simp: mapping_meta_def meta_get_def meta_items_def split: option.splits json.splits)

lemma mock_lbm_response_echo:
  "mapping_meta u \<Longrightarrow>
     mock_lbm_response u prompt =
       Inr (reply_head (name_or_friend u) (bio_of u) @ ''> '' @ sanitized prompt @ reply_tail)"
  by (simp add: mock_lbm_response_def meta_get_mapping bio_of_def reply_head_def reply_tail_def)

lemma mapping_meta_ava: "mapping_meta ava"
  by (simp add: mapping_meta_def ava_def)

lemma name_or_friend_ava: "name_or_friend ava = ''Ava''"
  by (simp add: name_or_friend_def ava_def)

lemma bio_of_ava: "bio_of ava = JStr ''loves hiking''"
  by (simp add: bio_of_def meta_items_def ava_def)

section \<open>JSON text read back\<close>







































text \<open>
  Every call of the scanner that returns has consumed some of the text, and one that ends
  for want of fuel had at most twice the length of its text (and one, inside an array or
  object).
\<close>

lemma cons_char_Inr:
  "cons_char c x = Inr (t, r) \<Longrightarrow> \<exists>t'. x = Inr (t', r)"
  by (auto simp: cons_char_def split: sum.splits)

lemma scanstring_length: "scanstring s = Inr (t, r) \<Longrightarrow> length r < length s"
proof (induction s arbitrary: t rule: scanstring.induct)
  case 1
  then show ?case by simp
next
  case (2 c cs)
  show ?case
  proof (cases "c = dquote")
    case True
    with "2.prems" show ?thesis by simp
  next
    case nq: False
    show ?thesis
    proof (cases "c = backslash")
      case bs: True
      show ?thesis
      proof (cases cs)
        case Nil
        with "2.prems" nq bs show ?thesis by simp
      next
        case (Cons e es)
        show ?thesis
        proof (cases "e = CHR ''u''")
          case u: True
          show ?thesis
          proof (cases es)
            case Nil
            with "2.prems" nq bs Cons u show ?thesis by simp
          next
            case es1: (Cons h1 e1)
            show ?thesis
            proof (cases e1)
              case Nil
              with "2.prems" nq bs Cons u es1 show ?thesis by simp
            next
              case es2: (Cons h2 e2)
              show ?thesis
              proof (cases e2)
                case Nil
                with "2.prems" nq bs Cons u es1 es2 show ?thesis by simp
              next
                case es3: (Cons h3 e3)
                show ?thesis
                proof (cases e3)
                  case Nil
                  with "2.prems" nq bs Cons u es1 es2 es3 show ?thesis by simp
                next
                  case es4: (Cons h4 r4)
                  from "2.prems" nq bs Cons u es1 es2 es3 es4
                  obtain n where n: "hex4 h1 h2 h3 h4 = Some n" "n < 256"
                    and p: "cons_char (char_of n) (scanstring r4) = Inr (t, r)"
                    by (auto split: option.splits if_splits)
                  from p obtain t' where "scanstring r4 = Inr (t', r)"
                    using cons_char_Inr by blast
                  then have "length r < length r4"
                    using "2.IH"(1) [OF nq bs Cons u es1 es2 es3 es4 n] by simp
                  then show ?thesis
                    by (simp add: Cons es1 es2 es3 es4)
                qed
              qed
            qed
          qed
        next
          case nu: False
          from "2.prems" nq bs Cons nu
          obtain x where x: "unescape e = Some x"
            and p: "cons_char x (scanstring es) = Inr (t, r)"
            by (auto split: option.splits)
          from p obtain t' where "scanstring es = Inr (t', r)"
            using cons_char_Inr by blast
          then have "length r < length es"
            using "2.IH"(2) [OF nq bs Cons nu x] by simp
          then show ?thesis by (simp add: Cons)
        qed
      qed
    next
      case nb: False
      from "2.prems" nq nb have ge: "\<not> (of_char c :: nat) < 32"
        and p: "cons_char c (scanstring cs) = Inr (t, r)"
        by (auto split: if_splits)
      from p obtain t' where "scanstring cs = Inr (t', r)"
        using cons_char_Inr by blast
      then have "length r < length cs"
        using "2.IH"(3) [OF nq nb ge] by simp
      then show ?thesis by simp
    qed
  qed
qed

lemma cons_char_Inl: "cons_char c x = Inl e \<Longrightarrow> x = Inl e"
  by (auto simp: cons_char_def split: sum.splits)

lemma scanstring_no_recursion: "scanstring s \<noteq> Inl RecursionError"
proof (induction s rule: scanstring.induct)
  case 1
  show ?case by simp
next
  case (2 c cs)
  show ?case
  proof
    assume a: "scanstring (c # cs) = Inl RecursionError"
    show False
    proof (cases "c = dquote")
      case True
      with a show ?thesis by simp
    next
      case nq: False
      show ?thesis
      proof (cases "c = backslash")
        case bs: True
        show ?thesis
        proof (cases cs)
          case Nil
          with a nq bs show ?thesis by simp
        next
          case (Cons e es)
          show ?thesis
          proof (cases "e = CHR ''u''")
            case u: True
            show ?thesis
            proof (cases es)
              case Nil
              with a nq bs Cons u show ?thesis by simp
            next
              case es1: (Cons h1 e1)
              show ?thesis
              proof (cases e1)
                case Nil
                with a nq bs Cons u es1 show ?thesis by simp
              next
                case es2: (Cons h2 e2)
                show ?thesis
                proof (cases e2)
                  case Nil
                  with a nq bs Cons u es1 es2 show ?thesis by simp
                next
                  case es3: (Cons h3 e3)
                  show ?thesis
                  proof (cases e3)
                    case Nil
                    with a nq bs Cons u es1 es2 es3 show ?thesis by simp
                  next
                    case es4: (Cons h4 r4)
                    from a nq bs Cons u es1 es2 es3 es4
                    obtain n where n: "hex4 h1 h2 h3 h4 = Some n" "n < 256"
                      and p: "cons_char (char_of n) (scanstring r4) = Inl RecursionError"
                      by (auto split: option.splits if_splits)
                    from p have "scanstring r4 = Inl RecursionError"
                      by (rule cons_char_Inl)
                    then show ?thesis
                      using "2.IH"(1) [OF nq bs Cons u es1 es2 es3 es4 n] by simp
                  qed
                qed
              qed
            qed
          next
            case nu: False
            from a nq bs Cons nu
            obtain x where x: "unescape e = Some x"
              and p: "cons_char x (scanstring es) = Inl RecursionError"
              by (auto split: option.splits)
            from p have "scanstring es = Inl RecursionError"
              by (rule cons_char_Inl)
            then show ?thesis
              using "2.IH"(2) [OF nq bs Cons nu x] by simp
          qed
        qed
      next
        case nb: False
        from a nq nb have ge: "\<not> (of_char c :: nat) < 32"
          and p: "cons_char c (scanstring cs) = Inl RecursionError"
          by (auto split: if_splits)
        from p have "scanstring cs = Inl RecursionError"
          by (rule cons_char_Inl)
        then show ?thesis
          using "2.IH"(3) [OF nq nb ge] by simp
      qed
    qed
  qed
qed

lemma skip_ws_length: "length (skip_ws s) \<le> length s"
  by (simp add: skip_ws_def length_dropWhile_le)

lemma match_int_part_length:
  "match_int_part s = Some (ds, r) \<Longrightarrow> length r < length s"
proof (cases s)
  case Nil
  assume "match_int_part s = Some (ds, r)"
  with Nil show ?thesis by (simp add: match_int_part_def)
next
  case (Cons c cs)
  assume a: "match_int_part s = Some (ds, r)"
  show ?thesis
  proof (cases "c = CHR ''0''")
    case True
    with a Cons show ?thesis by (auto simp: match_int_part_def split: if_splits)
  next
    case False
    with a Cons have d: "is_digit c" and r: "r = dropWhile is_digit (c # cs)"
      by (auto simp: match_int_part_def split: if_splits)
    have "length (dropWhile is_digit cs) \<le> length cs" by (rule length_dropWhile_le)
    with d r Cons show ?thesis by simp
  qed
qed

lemma match_number_length:
  "match_number s = Some (Inr (v, r)) \<Longrightarrow> length r < length s"
proof -
  assume a: "match_number s = Some (Inr (v, r))"
  let ?neg = "(case s of [] \<Rightarrow> False | c # cs \<Rightarrow> c = CHR ''-'')"
  from a obtain ds where m: "match_int_part (if ?neg then tl s else s) = Some (ds, r)"
    by (auto simp: match_number_def Let_def split: option.splits if_splits)
  have "length (if ?neg then tl s else s) \<le> length s" by simp
  with match_int_part_length [OF m] show ?thesis by simp
qed

lemma match_number_no_recursion: "match_number s \<noteq> Some (Inl RecursionError)"
  by (auto simp: match_number_def Let_def split: option.splits if_splits)

lemma skip_ws_ConsD: "skip_ws s = d # ds \<Longrightarrow> length ds < length s"
  using skip_ws_length [of s] by simp

lemma scan_once_step:
  assumes B: "\<And>s acc v r. array_items n s acc = Inr (v, r) \<Longrightarrow> length r < length s"
    and B': "\<And>s acc. array_items n s acc = Inl RecursionError \<Longrightarrow> n \<le> 2 * length s + 1"
    and C: "\<And>s acc v r. object_items n s acc = Inr (v, r) \<Longrightarrow> length r < length s"
    and C': "\<And>s acc. object_items n s acc = Inl RecursionError \<Longrightarrow> n \<le> 2 * length s + 1"
  shows "(scan_once (Suc n) s = Inr (v, r) \<longrightarrow> length r < length s)
       \<and> (scan_once (Suc n) s = Inl RecursionError \<longrightarrow> Suc n \<le> 2 * length s)"
proof (cases s)
  case Nil
  then show ?thesis by simp
next
  case (Cons c cs)
  show ?thesis
  proof (cases "c = dquote")
    case True
    show ?thesis
    proof (cases "scanstring cs")
      case (Inl e)
      with True Cons scanstring_no_recursion [of cs] show ?thesis by auto
    next
      case (Inr p)
      obtain t r' where p: "p = (t, r')" by (cases p)
      with Inr True Cons scanstring_length [of cs t r'] show ?thesis by auto
    qed
  next
    case nq: False
    show ?thesis
    proof (cases "c = CHR ''{''")
      case True
      show ?thesis
      proof (cases "skip_ws cs")
        case Nil
        with nq True Cons show ?thesis by simp
      next
        case sk: (Cons d ds)
        have l: "length ds < length cs" using sk by (rule skip_ws_ConsD)
        show ?thesis
        proof (cases "d = CHR ''}''")
          case True
          with nq \<open>c = CHR ''{''\<close> Cons sk l show ?thesis by auto
        next
          case nb: False
          show ?thesis
          proof (cases "d = dquote")
            case True
            have s: "scan_once (Suc n) s = object_items n ds []"
              using nq \<open>c = CHR ''{''\<close> Cons sk nb True by simp
            show ?thesis
              unfolding s using C [of ds "[]" v r] C' [of ds "[]"] l Cons by auto
          next
            case False
            with nq \<open>c = CHR ''{''\<close> Cons sk nb show ?thesis by simp
          qed
        qed
      qed
    next
      case nc: False
      show ?thesis
      proof (cases "c = CHR ''[''")
        case True
        show ?thesis
        proof (cases "skip_ws cs")
          case Nil
          with nq nc True Cons show ?thesis by simp
        next
          case sk: (Cons d ds)
          have l: "length ds < length cs" using sk by (rule skip_ws_ConsD)
          show ?thesis
          proof (cases "d = CHR '']''")
            case True
            with nq nc \<open>c = CHR ''[''\<close> Cons sk l show ?thesis by auto
          next
            case nb: False
            have s: "scan_once (Suc n) s = array_items n (d # ds) []"
              using nq nc \<open>c = CHR ''[''\<close> Cons sk nb by simp
            show ?thesis
              unfolding s using B [of "d # ds" "[]" v r] B' [of "d # ds" "[]"] l Cons by auto
          qed
        qed
      next
        case na: False
        have s: "scan_once (Suc n) s =
                   (if prefix ''null'' s then Inr (JNull, drop 4 s)
                    else if prefix ''true'' s then Inr (JBool True, drop 4 s)
                    else if prefix ''false'' s then Inr (JBool False, drop 5 s)
                    else (case match_number s of
                            Some r \<Rightarrow> r
                          | None \<Rightarrow>
                              if prefix ''NaN'' s \<or> prefix ''Infinity'' s \<or> prefix ''-Infinity'' s
                              then Inl Unmodelled else Inl JSONDecodeError))"
          unfolding Cons by (simp only: scan_once.simps list.case nq nc na if_False)
        have p: "\<And>k. prefix k s \<Longrightarrow> k \<noteq> [] \<Longrightarrow> length (drop (length k) s) < length s"
          using Cons by simp
        have p4: "prefix ''null'' s \<Longrightarrow> length (drop 4 s) < length s"
          using p [of "''null''"] by simp
        have p4': "prefix ''true'' s \<Longrightarrow> length (drop 4 s) < length s"
          using p [of "''true''"] by simp
        have p5: "prefix ''false'' s \<Longrightarrow> length (drop 5 s) < length s"
          using p [of "''false''"] by simp
        show ?thesis
        proof (cases "prefix ''null'' s \<or> prefix ''true'' s \<or> prefix ''false'' s")
          case True
          then show ?thesis
            unfolding s using p4 p4' p5 by (auto split: if_splits)
        next
          case False
          show ?thesis
          proof (cases "match_number s")
            case None
            with False show ?thesis unfolding s by simp
          next
            case (Some x)
            show ?thesis
            proof (cases x)
              case (Inl e)
              with Some False match_number_no_recursion [of s] show ?thesis
                unfolding s by auto
            next
              case (Inr q)
              obtain v' r' where q: "q = (v', r')" by (cases q)
              with Inr Some False match_number_length [of s v' r'] show ?thesis
                unfolding s by auto
            qed
          qed
        qed
      qed
    qed
  qed
qed


lemma array_items_step:
  assumes A: "\<And>s v r. scan_once n s = Inr (v, r) \<Longrightarrow> length r < length s"
    and A': "\<And>s. scan_once n s = Inl RecursionError \<Longrightarrow> n \<le> 2 * length s"
    and B: "\<And>s acc v r. array_items n s acc = Inr (v, r) \<Longrightarrow> length r < length s"
    and B': "\<And>s acc. array_items n s acc = Inl RecursionError \<Longrightarrow> n \<le> 2 * length s + 1"
  shows "(array_items (Suc n) s acc = Inr (v, r) \<longrightarrow> length r < length s)
       \<and> (array_items (Suc n) s acc = Inl RecursionError \<longrightarrow> Suc n \<le> 2 * length s + 1)"
proof (cases "scan_once n s")
  case (Inl e)
  then have "array_items (Suc n) s acc = Inl e" by simp
  with Inl A' [of s] show ?thesis by auto
next
  case (Inr p)
  obtain v' r' where p: "p = (v', r')" by (cases p)
  have l: "length r' < length s" using A [of s v' r'] Inr p by simp
  show ?thesis
  proof (cases "skip_ws r'")
    case Nil
    with Inr p show ?thesis by simp
  next
    case (Cons d ds)
    have l2: "length ds < length r'" using Cons by (rule skip_ws_ConsD)
    show ?thesis
    proof (cases "d = CHR '']''")
      case True
      with Inr p Cons l l2 show ?thesis by auto
    next
      case nb: False
      show ?thesis
      proof (cases "d = CHR '',''")
        case True
        have s: "array_items (Suc n) s acc = array_items n (skip_ws ds) (acc @ [v'])"
          using Inr p Cons nb True by simp
        have l3: "length (skip_ws ds) \<le> length ds" by (rule skip_ws_length)
        show ?thesis
          unfolding s
          using B [of "skip_ws ds" "acc @ [v']" v r] B' [of "skip_ws ds" "acc @ [v']"] l l2 l3
          by auto
      next
        case False
        with Inr p Cons nb show ?thesis by simp
      qed
    qed
  qed
qed

lemma object_items_step:
  assumes A: "\<And>s v r. scan_once n s = Inr (v, r) \<Longrightarrow> length r < length s"
    and A': "\<And>s. scan_once n s = Inl RecursionError \<Longrightarrow> n \<le> 2 * length s"
    and C: "\<And>s acc v r. object_items n s acc = Inr (v, r) \<Longrightarrow> length r < length s"
    and C': "\<And>s acc. object_items n s acc = Inl RecursionError \<Longrightarrow> n \<le> 2 * length s + 1"
  shows "(object_items (Suc n) s acc = Inr (v, r) \<longrightarrow> length r < length s)
       \<and> (object_items (Suc n) s acc = Inl RecursionError \<longrightarrow> Suc n \<le> 2 * length s + 1)"
proof (cases "scanstring s")
  case (Inl e)
  then have "object_items (Suc n) s acc = Inl e" by simp
  with Inl scanstring_no_recursion [of s] show ?thesis by auto
next
  case (Inr p)
  obtain k r1 where p: "p = (k, r1)" by (cases p)
  have l1: "length r1 < length s" using scanstring_length [of s k r1] Inr p by simp
  show ?thesis
  proof (cases "skip_ws r1")
    case Nil
    with Inr p show ?thesis by simp
  next
    case (Cons d ds)
    have l2: "length ds < length r1" using Cons by (rule skip_ws_ConsD)
    show ?thesis
    proof (cases "d = CHR '':''")
      case False
      with Inr p Cons show ?thesis by simp
    next
      case colon: True
      have l3: "length (skip_ws ds) \<le> length ds" by (rule skip_ws_length)
      show ?thesis
      proof (cases "scan_once n (skip_ws ds)")
        case (Inl e)
        then have "object_items (Suc n) s acc = Inl e"
          using Inr p Cons colon by simp
        with Inl A' [of "skip_ws ds"] l1 l2 l3 show ?thesis by auto
      next
        case val: (Inr q)
        obtain v' r2 where q: "q = (v', r2)" by (cases q)
        have l4: "length r2 < length (skip_ws ds)" using A [of "skip_ws ds" v' r2] val q by simp
        show ?thesis
        proof (cases "skip_ws r2")
          case Nil
          with Inr p Cons colon val q show ?thesis by simp
        next
          case sk: (Cons d' ds')
          have l5: "length ds' < length r2" using sk by (rule skip_ws_ConsD)
          show ?thesis
          proof (cases "d' = CHR ''}''")
            case True
            with Inr p Cons colon val q sk l1 l2 l3 l4 l5 show ?thesis by auto
          next
            case nb: False
            show ?thesis
            proof (cases "d' = CHR '',''")
              case False
              with Inr p Cons colon val q sk nb show ?thesis by simp
            next
              case comma: True
              show ?thesis
              proof (cases "skip_ws ds'")
                case Nil
                with Inr p Cons colon val q sk nb comma show ?thesis by simp
              next
                case sq: (Cons q' qs)
                have l6: "length qs < length ds'" using sq by (rule skip_ws_ConsD)
                show ?thesis
                proof (cases "q' = dquote")
                  case False
                  with Inr p Cons colon val q sk nb comma sq show ?thesis by simp
                next
                  case True
                  have s: "object_items (Suc n) s acc = object_items n qs (dict_set acc k v')"
                    using Inr p Cons colon val q sk nb comma sq True by simp
                  show ?thesis
                    unfolding s
                    using C [of qs "dict_set acc k v'" v r] C' [of qs "dict_set acc k v'"]
                      l1 l2 l3 l4 l5 l6
                    by auto
                qed
              qed
            qed
          qed
        qed
      qed
    qed
  qed
qed

lemma scan_fuel:
  "(\<forall>s. (\<forall>v r. scan_once n s = Inr (v, r) \<longrightarrow> length r < length s)
        \<and> (scan_once n s = Inl RecursionError \<longrightarrow> n \<le> 2 * length s))
   \<and> (\<forall>s acc. (\<forall>v r. array_items n s acc = Inr (v, r) \<longrightarrow> length r < length s)
        \<and> (array_items n s acc = Inl RecursionError \<longrightarrow> n \<le> 2 * length s + 1))
   \<and> (\<forall>s acc. (\<forall>v r. object_items n s acc = Inr (v, r) \<longrightarrow> length r < length s)
        \<and> (object_items n s acc = Inl RecursionError \<longrightarrow> n \<le> 2 * length s + 1))"
proof (induction n)
  case 0
  show ?case by simp
next
  case (Suc n)
  have A: "\<And>s v r. scan_once n s = Inr (v, r) \<Longrightarrow> length r < length s"
    and A': "\<And>s. scan_once n s = Inl RecursionError \<Longrightarrow> n \<le> 2 * length s"
    and B: "\<And>s acc v r. array_items n s acc = Inr (v, r) \<Longrightarrow> length r < length s"
    and B': "\<And>s acc. array_items n s acc = Inl RecursionError \<Longrightarrow> n \<le> 2 * length s + 1"
    and C: "\<And>s acc v r. object_items n s acc = Inr (v, r) \<Longrightarrow> length r < length s"
    and C': "\<And>s acc. object_items n s acc = Inl RecursionError \<Longrightarrow> n \<le> 2 * length s + 1"
    using Suc by blast+
  have 1: "(scan_once (Suc n) s = Inr (v, r) \<longrightarrow> length r < length s)
       \<and> (scan_once (Suc n) s = Inl RecursionError \<longrightarrow> Suc n \<le> 2 * length s)" for s v r
  proof (rule scan_once_step)
    show "\<And>s acc v r. array_items n s acc = Inr (v, r) \<Longrightarrow> length r < length s" by (rule B)
    show "\<And>s acc. array_items n s acc = Inl RecursionError \<Longrightarrow> n \<le> 2 * length s + 1" by (rule B')
    show "\<And>s acc v r. object_items n s acc = Inr (v, r) \<Longrightarrow> length r < length s" by (rule C)
    show "\<And>s acc. object_items n s acc = Inl RecursionError \<Longrightarrow> n \<le> 2 * length s + 1" by (rule C')
  qed
  have 2: "(array_items (Suc n) s acc = Inr (v, r) \<longrightarrow> length r < length s)
       \<and> (array_items (Suc n) s acc = Inl RecursionError \<longrightarrow> Suc n \<le> 2 * length s + 1)"
    for s acc v r
  proof (rule array_items_step)
    show "\<And>s v r. scan_once n s = Inr (v, r) \<Longrightarrow> length r < length s" by (rule A)
    show "\<And>s. scan_once n s = Inl RecursionError \<Longrightarrow> n \<le> 2 * length s" by (rule A')
    show "\<And>s acc v r. array_items n s acc = Inr (v, r) \<Longrightarrow> length r < length s" by (rule B)
    show "\<And>s acc. array_items n s acc = Inl RecursionError \<Longrightarrow> n \<le> 2 * length s + 1" by (rule B')
  qed
  have 3: "(object_items (Suc n) s acc = Inr (v, r) \<longrightarrow> length r < length s)
       \<and> (object_items (Suc n) s acc = Inl RecursionError \<longrightarrow> Suc n \<le> 2 * length s + 1)"
    for s acc v r
  proof (rule object_items_step)
    show "\<And>s v r. scan_once n s = Inr (v, r) \<Longrightarrow> length r < length s" by (rule A)
    show "\<And>s. scan_once n s = Inl RecursionError \<Longrightarrow> n \<le> 2 * length s" by (rule A')
    show "\<And>s acc v r. object_items n s acc = Inr (v, r) \<Longrightarrow> length r < length s" by (rule C)
    show "\<And>s acc. object_items n s acc = Inl RecursionError \<Longrightarrow> n \<le> 2 * length s + 1" by (rule C')
  qed
  from 1 2 3 show ?case by blast
qed

text \<open>The fuel of \<open>json_loads\<close> never runs out.\<close>

lemma json_loads_fuel: "json_loads s \<noteq> Inl RecursionError"
proof
  assume "json_loads s = Inl RecursionError"
  then have "scan_once (2 * length s + 1) (skip_ws s) = Inl RecursionError"
    by (auto simp: json_loads_def split: sum.splits if_splits simp del: scan_once.simps)
  then have "2 * length s + 1 \<le> 2 * length (skip_ws s)"
    using scan_fuel [of "2 * length s + 1"] by blast
  with skip_ws_length [of s] show False by simp
qed

section \<open>Claims about the reply generator\<close>

text \<open>
  C2, as stated: whenever the input holds \<open><\<close>, \<open>>\<close> or \<open>&\<close>, an escaped form starts at every
  \<open>&\<close> of the echo, also when the escaped text is longer than 1000 characters. This fails
  for 999 letters followed by \<open>&\<close>: the escaped text has 1004 characters, the slice keeps
  1000 of them, and the echo ends in a bare \<open>&\<close>.
\<close>

theorem echo_escaped_counterexample:
  "CHR ''&'' \<in> set (replicate 999 (CHR ''a'') @ ''&'')
   \<and> length (html_escape (strip (replicate 999 (CHR ''a'') @ ''&''))) = 1004
   \<and> mock_lbm_response ava (replicate 999 (CHR ''a'') @ ''&'') =
       Inr (reply_head ''Ava'' (JStr ''loves hiking'') @ ''> '' @ replicate 999 (CHR ''a'') @ ''&''
            @ reply_tail)
   \<and> \<not> no_literal_markup (sanitized (replicate 999 (CHR ''a'') @ ''&''))"
  by (simp add: mock_lbm_response_echo mapping_meta_ava name_or_friend_ava bio_of_ava
      sanitized_cut_prompt strip_cut_prompt html_escape_append html_escape_plain
      html_escape_Cons html_escape_Nil escape_char_def no_literal_markup_plain
      starts_entity_def entities_def)

text \<open>
  C2, amended: for every profile with a mapping as \<open>meta\<close> and every input, the reply is the
  head, the echo behind \<open>> \<close> and the tail; the echo holds no \<open><\<close> and no \<open>>\<close>; at every \<open>&\<close>
  of the echo an escaped form starts, or a part of one that the slice cut off at the end
  of the echo; and when the escaped text has at most 1000 characters, a whole escaped form
  starts at every \<open>&\<close>.
\<close>

theorem echo_escaped_upto_cut:
  assumes "mapping_meta u"
  shows "mock_lbm_response u prompt =
           Inr (reply_head (name_or_friend u) (bio_of u) @ ''> '' @ sanitized prompt @ reply_tail)
         \<and> CHR ''<'' \<notin> set (sanitized prompt) \<and> CHR ''>'' \<notin> set (sanitized prompt)
         \<and> no_literal_markup_cut (sanitized prompt)
         \<and> (length (html_escape (strip prompt)) \<le> 1000 \<longrightarrow> no_literal_markup (sanitized prompt))"
proof -
  have cut: "no_literal_markup_cut (sanitized prompt)"
    by (simp add: sanitized_def no_literal_markup_cut_take)
  have whole: "length (html_escape (strip prompt)) \<le> 1000 \<longrightarrow> no_literal_markup (sanitized prompt)"
    by (simp add: sanitized_def no_literal_markup_html_escape)
  from assms cut whole no_literal_markup_cut_set [OF cut] show ?thesis
    by (simp add: mock_lbm_response_echo)
qed

text \<open>C2, amended, at the profile \<open>ava\<close> and an input with markup.\<close>

theorem echo_escaped_upto_cut_witness:
  "mapping_meta ava
   \<and> length (html_escape (strip '' <b>Tom & Jerry</b> '')) \<le> 1000
   \<and> sanitized '' <b>Tom & Jerry</b> '' = ''&lt;b&gt;Tom &amp; Jerry&lt;/b&gt;''
   \<and> no_literal_markup (sanitized '' <b>Tom & Jerry</b> '')
   \<and> mock_lbm_response ava '' <b>Tom & Jerry</b> '' =
       Inr (reply_head ''Ava'' (JStr ''loves hiking'') @ ''> &lt;b&gt;Tom &amp; Jerry&lt;/b&gt;''
            @ reply_tail)"
proof -
  have s: "sanitized '' <b>Tom & Jerry</b> '' = ''&lt;b&gt;Tom &amp; Jerry&lt;/b&gt;''"
    by (simp add: sanitized_def strip_def isspace_def html_escape_Cons html_escape_Nil
        escape_char_def dquote_def squote_def)
  have l: "length (html_escape (strip '' <b>Tom & Jerry</b> '')) \<le> 1000"
    by (simp add: strip_def isspace_def html_escape_Cons html_escape_Nil
        escape_char_def dquote_def squote_def)
  from echo_escaped_upto_cut [OF mapping_meta_ava, of "'' <b>Tom & Jerry</b> ''"] l
  show ?thesis
    by (simp add: s mapping_meta_ava name_or_friend_ava bio_of_ava)
qed

text \<open>
  C6: for every profile with a mapping as \<open>meta\<close> and every input, the reply carries the
  echo behind \<open>> \<close>, and the echo has at most 1000 characters; when the trimmed input is
  longer than 1000 characters it has exactly 1000.
\<close>

theorem echo_length:
  assumes "mapping_meta u"
  shows "mock_lbm_response u prompt =
           Inr (reply_head (name_or_friend u) (bio_of u) @ ''> '' @ sanitized prompt @ reply_tail)
         \<and> length (sanitized prompt) \<le> 1000
         \<and> (1000 < length (strip prompt) \<longrightarrow> length (sanitized prompt) = 1000)"
proof -
  have "length (strip prompt) \<le> length (html_escape (strip prompt))"
    by (rule length_html_escape)
  then have "1000 < length (strip prompt) \<longrightarrow> length (sanitized prompt) = 1000"
    by (simp add: sanitized_def)
  moreover have "length (sanitized prompt) \<le> 1000"
    by (simp add: sanitized_def)
  ultimately show ?thesis
    using assms by (simp add: mock_lbm_response_echo)
qed

text \<open>C6 at \<open>ava\<close> and an input of 1001 letters.\<close>

theorem echo_length_witness:
  "mapping_meta ava
   \<and> 1000 < length (strip (replicate 1001 (CHR ''a'')))
   \<and> length (sanitized (replicate 1001 (CHR ''a''))) = 1000
   \<and> mock_lbm_response ava (replicate 1001 (CHR ''a'')) =
       Inr (reply_head ''Ava'' (JStr ''loves hiking'') @ ''> '' @ replicate 1000 (CHR ''a'')
            @ reply_tail)"
  using echo_length [OF mapping_meta_ava, of "replicate 1001 (CHR ''a'')"]
  by (simp add: strip_long_prompt sanitized_long_prompt mapping_meta_ava name_or_friend_ava
      bio_of_ava)

section \<open>Claims about the record store\<close>

lemma three_saved_eq: "three_saved = Inr three_db"
  by code_simp

lemma list_users_three_db: "list_users three_db = Inr [bo, cy, ava]"
  by code_simp








lemma collect_map_Inr: "collect (map Inr vs) = Inr vs"
  by (induction vs) simp_all

lemma collect_InrD: "collect xs = Inr vs \<Longrightarrow> xs = map Inr vs"
  by (induction xs arbitrary: vs) (auto split: sum.splits)

lemma collect_Inr: "collect xs = Inr vs \<longleftrightarrow> xs = map Inr vs"
  using collect_map_Inr collect_InrD by auto

lemma collect_total: "\<forall>x \<in> set xs. \<exists>v. x = Inr v \<Longrightarrow> \<exists>vs. collect xs = Inr vs"
  by (induction xs) (auto split: sum.splits)

lemma row_to_user_created_at: "row_to_user r = Inr u \<Longrightarrow> created_at u = row_created_at r"
  by (auto simp: row_to_user_def split: sum.splits)

lemma created_at_rows:
  "map Inr us = map row_to_user rs \<Longrightarrow> map created_at us = map row_created_at rs"
proof (induction us arbitrary: rs)
  case Nil
  then show ?case by simp
next
  case (Cons u us)
  then obtain r rs' where rs: "rs = r # rs'" by (cases rs) auto
  with Cons.prems have "row_to_user r = Inr u" and "map Inr us = map row_to_user rs'"
    by simp_all
  with Cons.IH rs show ?case
    by (simp add: row_to_user_created_at)
qed

lemma order_by_created_at_desc_sorted:
  "sorted_wrt (\<lambda>a b. b \<le> a) (map row_created_at (order_by_created_at_desc rows))"
proof -
  have "sorted (map row_created_at (sort_key row_created_at (rev rows)))"
    by (rule sorted_sort_key)
  then show ?thesis
    by (simp add: order_by_created_at_desc_def rev_map [symmetric] sorted_wrt_rev)
qed

lemma mset_order_by_created_at_desc: "mset (order_by_created_at_desc rows) = mset rows"
  by (simp add: order_by_created_at_desc_def)

lemma list_users_total:
  assumes "\<forall>r \<in> set (users c). \<exists>u. row_to_user r = Inr u"
  shows "\<exists>us. list_users c = Inr us"
proof -
  from assms
  have "\<forall>x \<in> set (map row_to_user (order_by_created_at_desc (users c))). \<exists>v. x = Inr v"
    by (auto simp: order_by_created_at_desc_def)
  then show ?thesis
    unfolding list_users_def by (rule collect_total)
qed

text \<open>
  C8: \<open>list_users\<close> on a store without profiles returns the empty list; whatever it returns
  is in descending order of \<open>created_at\<close> and holds exactly the profiles of the stored rows;
  and it returns whenever every stored \<open>meta\<close> can be read.
\<close>

theorem list_users_order:
  "(users c = [] \<longrightarrow> list_users c = Inr [])
   \<and> (\<forall>us. list_users c = Inr us \<longrightarrow>
         sorted_wrt (\<lambda>a b. created_at b \<le> created_at a) us
         \<and> mset (map Inr us) = mset (map row_to_user (users c)))
   \<and> ((\<forall>r \<in> set (users c). \<exists>u. row_to_user r = Inr u) \<longrightarrow> (\<exists>us. list_users c = Inr us))"
proof (intro conjI allI impI)
  assume "users c = []"
  then show "list_users c = Inr []"
    by (simp add: list_users_def order_by_created_at_desc_def)
next
  fix us assume a: "list_users c = Inr us"
  then have m: "map Inr us = map row_to_user (order_by_created_at_desc (users c))"
    by (simp add: list_users_def collect_Inr)
  have "sorted_wrt (\<lambda>a b. b \<le> a) (map created_at us)"
    using created_at_rows [OF m] order_by_created_at_desc_sorted [of "users c"] by simp
  then show "sorted_wrt (\<lambda>a b. created_at b \<le> created_at a) us"
    by (simp add: sorted_wrt_map)
  have "mset (map Inr us) = mset (map row_to_user (order_by_created_at_desc (users c)))"
    using m by simp
  then show "mset (map Inr us) = mset (map row_to_user (users c))"
    by (simp add: mset_order_by_created_at_desc)
next
  assume "\<forall>r \<in> set (users c). \<exists>u. row_to_user r = Inr u"
  then show "\<exists>us. list_users c = Inr us"
    by (rule list_users_total)
qed


text \<open>
  C8 at a store into which three profiles with distinct \<open>created_at\<close> were saved, the
  oldest first and the newest second, and at a new store.
\<close>

theorem list_users_order_witness:
  "three_saved = Inr three_db
   \<and> list_users three_db = Inr [bo, cy, ava]
   \<and> created_at ava < created_at cy \<and> created_at cy < created_at bo
   \<and> sorted_wrt (\<lambda>a b. created_at b \<le> created_at a) [bo, cy, ava]
   \<and> list_users (init_db None) = Inr []"
proof -
  have lt: "created_at ava < created_at cy \<and> created_at cy < created_at bo"
    by code_simp
  from list_users_order [of three_db] list_users_order [of "init_db None"] lt show ?thesis
    by (simp add: three_saved_eq list_users_three_db init_db_def)
qed
















section \<open>Claims about a chat turn\<close>


lemma save_message_cases:
  "save_message c m =
     (if \<not> writable c then Inl OperationalError
      else if id_c m \<in> set (map crow_id (conversations c)) then Inl IntegrityError
      else Inr (c\<lparr>conversations := conversations c @ [conv_to_row m]\<rparr>))"
  by (simp add: save_message_def)

lemma shown_simps:
  "shown (r, c) = r"
  by (simp add: shown_def)



lemma chat_user_save_error:
  "submit f \<Longrightarrow> prompt_in f \<noteq> [] \<Longrightarrow> tech_for u f w = Inr tech \<Longrightarrow> remember_pref f \<Longrightarrow>
     save_message c (user_conv u f w tech) = Inl e \<Longrightarrow> companion_chat_ui c u f w = (Inl e, c)"
  by (simp add: companion_chat_ui_def)

lemma chat_text_error:
  "submit f \<Longrightarrow> prompt_in f \<noteq> [] \<Longrightarrow> tech_for u f w = Inr tech \<Longrightarrow>
     (if remember_pref f then save_message c (user_conv u f w tech) else Inr c) = Inr c1 \<Longrightarrow>
     assistant_text_for u f w = Inl e \<Longrightarrow> companion_chat_ui c u f w = (Inl e, c1)"
  by (simp add: companion_chat_ui_def)

lemma chat_run:
  "submit f \<Longrightarrow> prompt_in f \<noteq> [] \<Longrightarrow> tech_for u f w = Inr tech \<Longrightarrow>
     (if remember_pref f then save_message c (user_conv u f w tech) else Inr c) = Inr c1 \<Longrightarrow>
     assistant_text_for u f w = Inr t \<Longrightarrow>
     companion_chat_ui c u f w =
       (case save_message c1 (assistant_conv u f w t) of
          Inl e \<Rightarrow> (Inl e, c1)
        | Inr c2 \<Rightarrow> (Inr (Some t), c2))"
  by (simp add: companion_chat_ui_def)



lemma tech_for_mapping:
  "mapping_meta u \<Longrightarrow>
     tech_for u f w =
       Inr (if truthy (case flag_of u of None \<Rightarrow> JBool True | Some v \<Rightarrow> v)
            then detect_tech_info (ipify w) (browser f) else JObj [])"
  by (simp add: tech_for_def meta_get_mapping flag_of_def)



lemma hello_text:
  "mock_lbm_response ava ''hello'' =
     Inr (reply_head ''Ava'' (JStr ''loves hiking'') @ ''> hello'' @ reply_tail)"
  by code_simp

lemma keyed_run_shown:
  "shown (companion_chat_ui (init_db None) ava keyed_form offline_world) =
     Inr (Some (reply_head ''Ava'' (JStr ''loves hiking'') @ ''> hello'' @ reply_tail))"
  by code_simp

lemma keyed_run_rows:
  "map crow_role (rows_after (companion_chat_ui (init_db None) ava keyed_form offline_world)) =
     [''user'', ''assistant'']"
  "map crow_metadata (rows_after (companion_chat_ui (init_db None) ava keyed_form offline_world)) =
     [json_column (JObj [(''tech'', JObj [(''ip'', JStr ''203.0.113.7''),
                                          (''browser'', JStr ''Mozilla/5.0'')])]),
      json_column (JObj [(''generated_by'', JStr ''openai_proxy'')])]"
  "map crow_message (rows_after (companion_chat_ui (init_db None) ava keyed_form offline_world)) =
     [''hello'', reply_head ''Ava'' (JStr ''loves hiking'') @ ''> hello'' @ reply_tail]"
  by code_simp+


text \<open>
  C1 at that input: the key is supplied, the request raises, the text shown and stored is
  the one \<open>mock_lbm_response\<close> made, and the stored assistant message says
  \<open>generated_by: openai_proxy\<close>.
\<close>

theorem fallback_tagged_openai_proxy:
  "openai_key keyed_form = ''sk-test'' \<and> openai offline_world = RequestFailed
   \<and> mock_lbm_response ava (prompt_in keyed_form) =
       Inr (reply_head ''Ava'' (JStr ''loves hiking'') @ ''> hello'' @ reply_tail)
   \<and> shown (companion_chat_ui (init_db None) ava keyed_form offline_world) =
       Inr (Some (reply_head ''Ava'' (JStr ''loves hiking'') @ ''> hello'' @ reply_tail))
   \<and> map crow_role (rows_after (companion_chat_ui (init_db None) ava keyed_form offline_world)) =
       [''user'', ''assistant'']
   \<and> map crow_message (rows_after (companion_chat_ui (init_db None) ava keyed_form offline_world)) =
       [''hello'', reply_head ''Ava'' (JStr ''loves hiking'') @ ''> hello'' @ reply_tail]
   \<and> map crow_metadata (rows_after (companion_chat_ui (init_db None) ava keyed_form offline_world)) =
       [json_column (JObj [(''tech'', JObj [(''ip'', JStr ''203.0.113.7''),
                                            (''browser'', JStr ''Mozilla/5.0'')])]),
        json_column (JObj [(''generated_by'', JStr ''openai_proxy'')])]"
  using hello_text
  by (simp add: keyed_run_shown keyed_run_rows)
    (simp add: keyed_form_def hello_form_def offline_world_def)

lemma full_db_run:
  "save_message full_db
     (user_conv ava hello_form offline_world
        (detect_tech_info (ipify offline_world) (browser hello_form))) = Inl OperationalError"
  "tech_for ava hello_form offline_world =
     Inr (detect_tech_info (ipify offline_world) (browser hello_form))"
  "companion_chat_ui full_db ava hello_form offline_world = (Inl OperationalError, full_db)"
  by code_simp+

text \<open>
  C3, as stated: a failure of \<open>save_message\<close> on the user message leaves the turn answered.
  On a store that refuses the write, \<open>companion_chat_ui\<close> ends with the exception and shows
  nothing, although \<open>mock_lbm_response\<close> has a reply for the input.
\<close>

theorem user_save_failure_counterexample:
  "submit hello_form \<and> remember_pref hello_form \<and> prompt_in hello_form = ''hello''
   \<and> mock_lbm_response ava ''hello'' =
       Inr (reply_head ''Ava'' (JStr ''loves hiking'') @ ''> hello'' @ reply_tail)
   \<and> save_message full_db
         (user_conv ava hello_form offline_world
            (detect_tech_info (ipify offline_world) (browser hello_form))) = Inl OperationalError
   \<and> shown (companion_chat_ui full_db ava hello_form offline_world) = Inl OperationalError"
  using hello_text by (simp add: full_db_run shown_simps) (simp add: hello_form_def)

lemma user_conv_openai:
  "user_conv u f (w\<lparr>openai := r\<rparr>) tech = user_conv u f w tech"
  by (simp add: user_conv_def)

lemma tech_for_openai:
  "tech_for u f (w\<lparr>openai := r\<rparr>) = tech_for u f w"
  by (simp add: tech_for_def split: sum.splits)

text \<open>
  C3, amended: when the message is to be saved and \<open>save_message\<close> fails on the user
  message, the turn ends with that exception and shows no text; the store is as it was
  before the turn, so neither the user message nor an assistant message is in it; and the
  turn ends so whatever the language model would have answered.
\<close>

theorem user_save_failure_aborts:
  assumes "submit f" and "prompt_in f \<noteq> []" and "remember_pref f"
    and "tech_for u f w = Inr tech"
    and "save_message c (user_conv u f w tech) = Inl e"
  shows "companion_chat_ui c u f w = (Inl e, c)
       \<and> shown (companion_chat_ui c u f w) = Inl e
       \<and> rows_after (companion_chat_ui c u f w) = conversations c
       \<and> (\<forall>r. companion_chat_ui c u f (w\<lparr>openai := r\<rparr>) = (Inl e, c))"
proof -
  have a: "companion_chat_ui c u f w = (Inl e, c)"
    using assms(1,2,4,3,5) by (rule chat_user_save_error)
  have b: "companion_chat_ui c u f (w\<lparr>openai := r\<rparr>) = (Inl e, c)" for r
  proof (rule chat_user_save_error [OF assms(1,2) _ assms(3)])
    show "tech_for u f (w\<lparr>openai := r\<rparr>) = Inr tech"
      using assms(4) by (simp add: tech_for_openai)
    show "save_message c (user_conv u f (w\<lparr>openai := r\<rparr>) tech) = Inl e"
      using assms(5) by (simp add: user_conv_openai)
  qed
  from a b show ?thesis
    by (simp add: shown_def rows_after_def)
qed

text \<open>
  C3, amended, at the store that refuses the write.
\<close>

theorem user_save_failure_aborts_witness:
  "submit hello_form \<and> prompt_in hello_form \<noteq> [] \<and> remember_pref hello_form
   \<and> tech_for ava hello_form offline_world =
       Inr (detect_tech_info (ipify offline_world) (browser hello_form))
   \<and> save_message full_db
         (user_conv ava hello_form offline_world
            (detect_tech_info (ipify offline_world) (browser hello_form))) = Inl OperationalError
   \<and> companion_chat_ui full_db ava hello_form offline_world = (Inl OperationalError, full_db)
   \<and> rows_after (companion_chat_ui full_db ava hello_form offline_world) = []
   \<and> companion_chat_ui full_db ava hello_form
         (offline_world\<lparr>openai := Response 200 (Some (JObj []))\<rparr>) = (Inl OperationalError, full_db)"
proof -
  have a: "submit hello_form" "prompt_in hello_form \<noteq> []" "remember_pref hello_form"
    by (simp_all add: hello_form_def)
  from user_save_failure_aborts [OF a full_db_run(2) full_db_run(1)] a show ?thesis
    by (simp add: full_db_run rows_after_def) (simp add: full_db_def)
qed

lemma save_message_InrD:
  "save_message c m = Inr c1 \<Longrightarrow> conversations c1 = conversations c @ [conv_to_row m]"
  by (auto simp: save_message_def split: if_splits)

lemma chat_rows:
  assumes "submit f" and "prompt_in f \<noteq> []" and "remember_pref f"
    and tech: "tech_for u f w = Inr tech"
    and run: "companion_chat_ui c u f w = (Inr t, c')"
  shows "\<exists>x. t = Some x
           \<and> conversations c' =
               conversations c @ [conv_to_row (user_conv u f w tech),
                                  conv_to_row (assistant_conv u f w x)]"
proof (cases "save_message c (user_conv u f w tech)")
  case (Inl e)
  then show ?thesis
    using chat_user_save_error [OF assms(1,2) tech assms(3) Inl] run by simp
next
  case c1: (Inr c1)
  then have s1: "(if remember_pref f then save_message c (user_conv u f w tech) else Inr c) = Inr c1"
    using assms(3) by simp
  show ?thesis
  proof (cases "assistant_text_for u f w")
    case (Inl e)
    then show ?thesis
      using chat_text_error [OF assms(1,2) tech s1 Inl] run by simp
  next
    case x: (Inr x)
    note r = chat_run [OF assms(1,2) tech s1 x]
    show ?thesis
    proof (cases "save_message c1 (assistant_conv u f w x)")
      case (Inl e)
      then show ?thesis using r run by simp
    next
      case (Inr c2)
      then have "t = Some x" and "c' = c2" using r run by simp_all
      then show ?thesis
        using save_message_InrD [OF c1] save_message_InrD [OF Inr] by simp
    qed
  qed
qed

lemma detect_tech_info_nonempty: "detect_tech_info r ua \<noteq> JObj []"
  by (simp add: detect_tech_info_def)

lemma dee_run:
  "flag_of dee = Some JNull"
  "tech_for dee hello_form offline_world = Inr (JObj [])"
  "shown (companion_chat_ui (init_db None) dee hello_form offline_world) =
     Inr (Some (reply_head ''Dee'' (JStr []) @ ''> hello'' @ reply_tail))"
  "map crow_metadata (rows_after (companion_chat_ui (init_db None) dee hello_form offline_world)) =
     [json_column (JObj [(''tech'', JObj [])]),
      json_column (JObj [(''generated_by'', JStr ''mock_lbm'')])]"
  by code_simp+

text \<open>
  C9, as stated: only an explicit \<open>False\<close> gives the empty \<open>tech\<close>. The profile \<open>dee\<close> holds
  \<open>allow_tech_info: None\<close>, which is not \<open>False\<close>; the condition of line 234 tests the
  truth value, so \<open>tech\<close> is the empty mapping and the user message is stored with it.
\<close>

theorem tech_flag_null_counterexample:
  "flag_of dee = Some JNull \<and> JNull \<noteq> JBool False
   \<and> tech_for dee hello_form offline_world = Inr (JObj [])
   \<and> shown (companion_chat_ui (init_db None) dee hello_form offline_world) =
       Inr (Some (reply_head ''Dee'' (JStr []) @ ''> hello'' @ reply_tail))
   \<and> map crow_metadata (rows_after (companion_chat_ui (init_db None) dee hello_form offline_world)) =
       [json_column (JObj [(''tech'', JObj [])]),
        json_column (JObj [(''generated_by'', JStr ''mock_lbm'')])]"
  by (simp add: dee_run)

text \<open>
  C9, amended: for a profile whose \<open>meta\<close> is a mapping, \<open>tech\<close> is what \<open>detect_tech_info\<close>
  returns, which is never empty, when \<open>allow_tech_info\<close> is absent or holds a value that
  is true (\<open>truthy\<close>), and the empty mapping when it holds a value that is false: \<open>False\<close>,
  \<open>None\<close>, \<open>0\<close> or an empty string, list, tuple or mapping. An absent flag gives what an
  explicit \<open>True\<close> gives; and a turn that saves the user message stores it with that \<open>tech\<close>.
\<close>

theorem tech_flag_default_true:
  assumes "mapping_meta u"
  shows "tech_for u f w =
           Inr (if (case flag_of u of None \<Rightarrow> True | Some v \<Rightarrow> truthy v)
                then detect_tech_info (ipify w) (browser f) else JObj [])
       \<and> detect_tech_info (ipify w) (browser f) \<noteq> JObj []
       \<and> (flag_of u = None \<longrightarrow>
            tech_for u f w =
              tech_for (u\<lparr>meta := Some (JObj ((''allow_tech_info'', JBool True) # meta_items u))\<rparr>) f w)
       \<and> (\<forall>t c'. submit f \<and> prompt_in f \<noteq> [] \<and> remember_pref f
                 \<and> companion_chat_ui c u f w = (Inr t, c')
             \<longrightarrow> (\<exists>x. t = Some x
                    \<and> conversations c' =
                        conversations c
                        @ [conv_to_row (user_conv u f w
                             (if (case flag_of u of None \<Rightarrow> True | Some v \<Rightarrow> truthy v)
                              then detect_tech_info (ipify w) (browser f) else JObj [])),
                           conv_to_row (assistant_conv u f w x)]))"
proof -
  have t: "tech_for u f w =
             Inr (if (case flag_of u of None \<Rightarrow> True | Some v \<Rightarrow> truthy v)
                  then detect_tech_info (ipify w) (browser f) else JObj [])"
    by (simp add: tech_for_mapping [OF assms] split: option.splits)
  have e: "flag_of u = None \<longrightarrow>
            tech_for u f w =
              tech_for (u\<lparr>meta := Some (JObj ((''allow_tech_info'', JBool True) # meta_items u))\<rparr>) f w"
    by (simp add: t) (simp add: tech_for_def meta_get_def)
  have r: "\<forall>t c'. submit f \<and> prompt_in f \<noteq> [] \<and> remember_pref f
                 \<and> companion_chat_ui c u f w = (Inr t, c')
             \<longrightarrow> (\<exists>x. t = Some x
                    \<and> conversations c' =
                        conversations c
                        @ [conv_to_row (user_conv u f w
                             (if (case flag_of u of None \<Rightarrow> True | Some v \<Rightarrow> truthy v)
                              then detect_tech_info (ipify w) (browser f) else JObj [])),
                           conv_to_row (assistant_conv u f w x)])"
    using chat_rows [OF _ _ _ t] by blast
  from t e r detect_tech_info_nonempty show ?thesis by blast
qed

lemma bo_run_rows:
  "map crow_metadata (rows_after (companion_chat_ui (init_db None) bo hello_form offline_world)) =
     [json_column (JObj [(''tech'', JObj [(''ip'', JStr ''203.0.113.7''),
                                          (''browser'', JStr ''Mozilla/5.0'')])]),
      json_column (JObj [(''generated_by'', JStr ''mock_lbm'')])]"
  "map crow_metadata (rows_after (companion_chat_ui (init_db None) cy hello_form offline_world)) =
     [json_column (JObj [(''tech'', JObj [])]),
      json_column (JObj [(''generated_by'', JStr ''mock_lbm'')])]"
  by code_simp+

text \<open>
  C9, amended, at the profile \<open>bo\<close>, whose \<open>meta\<close> is empty, at \<open>cy\<close>, whose flag is \<open>False\<close>,
  and at \<open>dee\<close>, whose flag is \<open>None\<close>.
\<close>

theorem tech_flag_default_true_witness:
  "mapping_meta bo \<and> flag_of bo = None
   \<and> tech_for bo hello_form offline_world =
       Inr (JObj [(''ip'', JStr ''203.0.113.7''), (''browser'', JStr ''Mozilla/5.0'')])
   \<and> map crow_metadata (rows_after (companion_chat_ui (init_db None) bo hello_form offline_world)) =
       [json_column (JObj [(''tech'', JObj [(''ip'', JStr ''203.0.113.7''),
                                            (''browser'', JStr ''Mozilla/5.0'')])]),
        json_column (JObj [(''generated_by'', JStr ''mock_lbm'')])]
   \<and> mapping_meta cy \<and> flag_of cy = Some (JBool False)
   \<and> tech_for cy hello_form offline_world = Inr (JObj [])
   \<and> mapping_meta dee \<and> flag_of dee = Some JNull
   \<and> tech_for dee hello_form offline_world = Inr (JObj [])"
proof -
  have b: "mapping_meta bo" "flag_of bo = None"
    by (simp_all add: mapping_meta_def flag_of_def meta_items_def bo_def)
  have c: "mapping_meta cy" "flag_of cy = Some (JBool False)"
    by (simp_all add: mapping_meta_def flag_of_def meta_items_def cy_def)
  have e: "mapping_meta dee" "flag_of dee = Some JNull"
    by (simp_all add: mapping_meta_def flag_of_def meta_items_def dee_def)
  have d: "detect_tech_info (ipify offline_world) (browser hello_form) =
             JObj [(''ip'', JStr ''203.0.113.7''), (''browser'', JStr ''Mozilla/5.0'')]"
    by (simp add: detect_tech_info_def try_get_public_ip_def offline_world_def hello_form_def)
  from tech_flag_default_true [OF b(1), of hello_form offline_world "init_db None"]
    tech_flag_default_true [OF c(1), of hello_form offline_world "init_db None"]
    tech_flag_default_true [OF e(1), of hello_form offline_world "init_db None"] b c d e
  show ?thesis
    by (simp add: bo_run_rows)
qed

end
